theory Spec2Isabelle
  imports Main "HOL-Library.Sublist"
begin

section \<open>goPost: converting recorded curl commands into a Postman collection\<close>

text \<open>
  The repository holds two variants of the same program, \<^verbatim>\<open>src/main.go\<close> and
  \<^verbatim>\<open>src/unnamed/part_000\<close>.  Both define \<^verbatim>\<open>parseCurlCommand\<close> and \<^verbatim>\<open>main\<close>; the
  embedding keeps both, with the suffixes \<open>_main_go\<close> and \<open>_part_000\<close>.  Go strings are
  byte sequences, so a string is a \<^typ>\<open>char list\<close> (one \<^typ>\<open>char\<close> per byte).
  What the program prints on standard output (\<^verbatim>\<open>fmt.Println\<close>) is left out.
\<close>

subsection \<open>Bytes that cannot be written inside a string literal\<close>

definition squote :: char where "squote = CHR 0x27"
definition dquote :: char where "dquote = CHR 0x22"
definition backslash :: char where "backslash = CHR 0x5C"
definition newline :: char where "newline = CHR 0x0A"

text \<open>\<open>quoted s\<close> is \<open>s\<close> between two single quotes.\<close>

definition quoted :: "string \<Rightarrow> string" where
  "quoted s = squote # s @ [squote]"

subsection \<open>The functions of Go's \<^verbatim>\<open>strings\<close> package that the program calls\<close>

text \<open>
  \<^verbatim>\<open>strings.Replace(s, old, new, -1)\<close>: every non-overlapping instance of \<open>old\<close>, found
  from the left, is replaced.  The program calls it with a non-empty \<open>old\<close> only; for an
  empty \<open>old\<close> Go inserts \<open>new\<close> around every UTF-8 sequence, which is written here per
  byte.
\<close>

function strings_Replace_all :: "string \<Rightarrow> string \<Rightarrow> string \<Rightarrow> string" where
  "strings_Replace_all s old new =
     (if old = [] then new @ concat (map (\<lambda>c. c # new) s)
      else (case s of
              [] \<Rightarrow> []
            | c # cs \<Rightarrow>
                if prefix old s then new @ strings_Replace_all (drop (length old) s) old new
                else c # strings_Replace_all cs old new))"
  by pat_completeness auto
termination
  by (relation "measure (\<lambda>(s, old, new). length s)") auto

declare strings_Replace_all.simps [simp del]

text \<open>\<^verbatim>\<open>strings.Contains(s, substr)\<close>.\<close>

fun strings_Contains :: "string \<Rightarrow> string \<Rightarrow> bool" where
  "strings_Contains [] sub = (sub = [])"
| "strings_Contains (c # cs) sub = (prefix sub (c # cs) \<or> strings_Contains cs sub)"

text \<open>
  \<^verbatim>\<open>strings.TrimLeft(s, cutset)\<close> and \<^verbatim>\<open>strings.Trim(s, cutset)\<close>, for a cutset of ASCII
  bytes (the program's cutset is \<^verbatim>\<open>"/"\<close>).
\<close>

definition strings_TrimLeft :: "string \<Rightarrow> string \<Rightarrow> string" where
  "strings_TrimLeft s cutset = dropWhile (\<lambda>c. c \<in> set cutset) s"

definition strings_TrimRight :: "string \<Rightarrow> string \<Rightarrow> string" where
  "strings_TrimRight s cutset = rev (dropWhile (\<lambda>c. c \<in> set cutset) (rev s))"

definition strings_Trim :: "string \<Rightarrow> string \<Rightarrow> string" where
  "strings_Trim s cutset = strings_TrimRight (strings_TrimLeft s cutset) cutset"

text \<open>
  \<^verbatim>\<open>strings.Split(s, sep)\<close> for a one-byte separator (the program's is \<^verbatim>\<open>"/"\<close>): the
  pieces between the separators; the result always has at least one element, the empty
  string gives \<open>[[]]\<close>.
\<close>

fun split_byte :: "char \<Rightarrow> string \<Rightarrow> string list" where
  "split_byte sep [] = [[]]"
| "split_byte sep (c # cs) =
     (if c = sep then [] # split_byte sep cs
      else (case split_byte sep cs of
              [] \<Rightarrow> [[c]]
            | p # ps \<Rightarrow> (c # p) # ps))"

text \<open>
  \<^verbatim>\<open>strings.Cut(s, sep)\<close> for a one-byte separator: the text before the first separator,
  the text after it, and whether it was found.
\<close>

definition cut_byte :: "string \<Rightarrow> char \<Rightarrow> string \<times> string \<times> bool" where
  "cut_byte s sep =
     (let b = takeWhile (\<lambda>c. c \<noteq> sep) s
      in if length b < length s then (b, drop (Suc (length b)) s, True) else (s, [], False))"

subsection \<open>The text normalizer (the first two statements of \<^verbatim>\<open>parseCurlCommand\<close>)\<close>

definition normalize :: "string \<Rightarrow> string" where
  "normalize curlCommand =
     strings_Replace_all (strings_Replace_all curlCommand [backslash, newline] '' '')
       [newline] '' ''"

subsection \<open>Regular expressions of Go's \<^verbatim>\<open>regexp\<close> package\<close>

text \<open>
  The program's five patterns use literals, the classes \<^verbatim>\<open>\w\<close>, \<^verbatim>\<open>\s\<close>, \<^verbatim>\<open>.\<close> and
  \<^verbatim>\<open>[^c]\<close>, the greedy repetitions \<^verbatim>\<open>+\<close> and \<^verbatim>\<open>*\<close>, the lazy \<^verbatim>\<open>*?\<close>, and capture
  groups.  Every class is a set of ASCII bytes or the complement of one, so matching byte
  by byte agrees with Go's matching rune by rune.
\<close>

datatype cls = Word | Space | Dot | Not char

fun in_cls :: "cls \<Rightarrow> char \<Rightarrow> bool" where
  "in_cls Word c =
     (let n = (of_char c :: nat)
      in (48 \<le> n \<and> n \<le> 57) \<or> (65 \<le> n \<and> n \<le> 90) \<or> n = 95 \<or> (97 \<le> n \<and> n \<le> 122))"
| "in_cls Space c = ((of_char c :: nat) \<in> {9, 10, 12, 13, 32})"
| "in_cls Dot c = (c \<noteq> newline)"
| "in_cls (Not x) c = (c \<noteq> x)"

datatype re = Lit string | Plus cls | Star cls | LazyStar cls | Cap re | Cat re re

text \<open>
  \<open>greedy p s\<close>: the ways of splitting \<open>s\<close> into a run of bytes that satisfy \<open>p\<close> and the
  rest, the longest run first (the order in which a backtracking matcher tries them).
\<close>

fun greedy :: "(char \<Rightarrow> bool) \<Rightarrow> string \<Rightarrow> (string \<times> string) list" where
  "greedy p [] = [([], [])]"
| "greedy p (c # cs) =
     (if p c then map (\<lambda>(w, r). (c # w, r)) (greedy p cs) @ [([], c # cs)]
      else [([], c # cs)])"

text \<open>
  \<open>ms r s\<close>: all matches of \<open>r\<close> at the start of \<open>s\<close>, in the order of preference of
  Go's leftmost-first semantics.  A match is the text consumed, the texts of the capture
  groups in the order of their opening parentheses, and the rest of \<open>s\<close>.
\<close>

fun ms :: "re \<Rightarrow> string \<Rightarrow> (string \<times> string list \<times> string) list" where
  "ms (Lit l) s = (if prefix l s then [(l, [], drop (length l) s)] else [])"
| "ms (Plus c) s = map (\<lambda>(w, t). (w, [], t)) (filter (\<lambda>(w, t). w \<noteq> []) (greedy (in_cls c) s))"
| "ms (Star c) s = map (\<lambda>(w, t). (w, [], t)) (greedy (in_cls c) s)"
| "ms (LazyStar c) s = map (\<lambda>(w, t). (w, [], t)) (rev (greedy (in_cls c) s))"
| "ms (Cap r) s = map (\<lambda>(w, gs, t). (w, w # gs, t)) (ms r s)"
| "ms (Cat a b) s =
     concat (map (\<lambda>(w1, g1, t1). map (\<lambda>(w2, g2, t2). (w1 @ w2, g1 @ g2, t2)) (ms b t1))
               (ms a s))"

text \<open>
  The leftmost match at or after the start of \<open>s\<close>, where \<open>s\<close> starts at offset \<open>i\<close> of
  the text searched: the offset of the match, its text, its groups, and the rest.
\<close>

fun find_from :: "re \<Rightarrow> nat \<Rightarrow> string \<Rightarrow> (nat \<times> string \<times> string list \<times> string) option" where
  "find_from r i [] =
     (case ms r [] of [] \<Rightarrow> None | (w, gs, t) # _ \<Rightarrow> Some (i, w, gs, t))"
| "find_from r i (c # cs) =
     (case ms r (c # cs) of
        [] \<Rightarrow> find_from r (Suc i) cs
      | (w, gs, t) # _ \<Rightarrow> Some (i, w, gs, t))"

text \<open>
  \<^verbatim>\<open>re.FindStringSubmatch(s)\<close>: the text of the leftmost match followed by the texts of
  its groups; the empty list stands for Go's \<^verbatim>\<open>nil\<close>, whose \<^verbatim>\<open>len\<close> is 0.
\<close>

definition FindStringSubmatch :: "re \<Rightarrow> string \<Rightarrow> string list" where
  "FindStringSubmatch r s =
     (case find_from r 0 s of None \<Rightarrow> [] | Some (i, w, gs, t) \<Rightarrow> w # gs)"

text \<open>
  \<^verbatim>\<open>re.FindAllStringSubmatch(s, -1)\<close>.  Go sets the bound \<open>n\<close> to \<^verbatim>\<open>len(s) + 1\<close> and
  searches again from the end of each match.  \<open>all_matches\<close> keeps the offset of each
  match.  After an empty match Go moves on by one rune (one byte here) and drops an empty
  match that touches the previous match; none of the program's patterns matches the empty
  string.
\<close>

fun all_matches :: "re \<Rightarrow> nat \<Rightarrow> nat \<Rightarrow> string \<Rightarrow> (nat \<times> string list) list" where
  "all_matches r 0 pos s = []"
| "all_matches r (Suc n) pos s =
     (case find_from r pos s of
        None \<Rightarrow> []
      | Some (i, w, gs, t) \<Rightarrow>
          (i, w # gs) #
          (if w = [] then (case t of [] \<Rightarrow> [] | x # xs \<Rightarrow> all_matches r n (Suc i) xs)
           else all_matches r n (i + length w) t))"

definition FindAllStringSubmatchIndex :: "re \<Rightarrow> string \<Rightarrow> (nat \<times> string list) list" where
  "FindAllStringSubmatchIndex r s = all_matches r (length s + 1) 0 s"

definition FindAllStringSubmatch :: "re \<Rightarrow> string \<Rightarrow> string list list" where
  "FindAllStringSubmatch r s = map snd (FindAllStringSubmatchIndex r s)"

subsection \<open>The program's patterns\<close>

text \<open>\<^verbatim>\<open>--request (\w+) '([^']*)'\<close> (src/main.go, line 23).\<close>

definition reMethodAndUrl_main_go :: re where
  "reMethodAndUrl_main_go =
     Cat (Lit ''--request '')
    (Cat (Cap (Plus Word))
    (Cat (Lit ('' '' @ [squote]))
    (Cat (Cap (Star (Not squote)))
         (Lit [squote]))))"

text \<open>\<^verbatim>\<open>--request\s+(\w+)\s+--url\s+([^ ]+)\<close> (src/unnamed/part_000, line 24).\<close>

definition reMethodAndUrl_part_000 :: re where
  "reMethodAndUrl_part_000 =
     Cat (Lit ''--request'')
    (Cat (Plus Space)
    (Cat (Cap (Plus Word))
    (Cat (Plus Space)
    (Cat (Lit ''--url'')
    (Cat (Plus Space)
         (Cap (Plus (Not CHR '' ''))))))))"

text \<open>\<^verbatim>\<open>--header '([^:]+): ([^']*)'\<close> (both files).\<close>

definition reHeader :: re where
  "reHeader =
     Cat (Lit (''--header '' @ [squote]))
    (Cat (Cap (Plus (Not CHR '':'')))
    (Cat (Lit '': '')
    (Cat (Cap (Star (Not squote)))
         (Lit [squote]))))"

text \<open>\<^verbatim>\<open>--data '(\{.*?\})'\<close> (src/unnamed/part_000, line 26).\<close>

definition reData :: re where
  "reData =
     Cat (Lit (''--data '' @ [squote]))
    (Cat (Cap (Cat (Lit ''{'') (Cat (LazyStar Dot) (Lit ''}''))))
         (Lit [squote]))"

text \<open>\<^verbatim>\<open>--data-raw '(\{.*?\})'\<close> (both files).\<close>

definition reDataRaw :: re where
  "reDataRaw =
     Cat (Lit (''--data-raw '' @ [squote]))
    (Cat (Cap (Cat (Lit ''{'') (Cat (LazyStar Dot) (Lit ''}''))))
         (Lit [squote]))"

subsection \<open>Go's \<^verbatim>\<open>net/url\<close> package, as far as the program uses it\<close>

text \<open>
  \<^verbatim>\<open>url.Parse\<close>, \<^verbatim>\<open>Hostname\<close>, \<^verbatim>\<open>Port\<close>, \<^verbatim>\<open>Query\<close> and \<^verbatim>\<open>String\<close> follow the
  package's source of Go 1.22.  The program only tests whether \<^verbatim>\<open>Parse\<close> returned an
  error, so an error is \<open>None\<close>.
\<close>

record URL =
  Scheme :: string
  Opaque :: string
  User :: "(string \<times> string option) option"
  Host :: string
  Path :: string
  RawPath :: string
  OmitHost :: bool
  ForceQuery :: bool
  RawQuery :: string
  Fragment :: string
  RawFragment :: string

definition empty_URL :: URL where
  "empty_URL = \<lparr>Scheme = [], Opaque = [], User = None, Host = [], Path = [], RawPath = [],
     OmitHost = False, ForceQuery = False, RawQuery = [], Fragment = [], RawFragment = []\<rparr>"

datatype encoding =
  encodePath | encodePathSegment | encodeHost | encodeZone | encodeUserPassword
  | encodeQueryComponent | encodeFragment

definition is_alpha :: "char \<Rightarrow> bool" where
  "is_alpha c = (let n = (of_char c :: nat) in (97 \<le> n \<and> n \<le> 122) \<or> (65 \<le> n \<and> n \<le> 90))"

definition is_digit :: "char \<Rightarrow> bool" where
  "is_digit c = (let n = (of_char c :: nat) in 48 \<le> n \<and> n \<le> 57)"

definition ishex :: "char \<Rightarrow> bool" where
  "ishex c =
     (let n = (of_char c :: nat)
      in (48 \<le> n \<and> n \<le> 57) \<or> (97 \<le> n \<and> n \<le> 102) \<or> (65 \<le> n \<and> n \<le> 70))"

definition unhex :: "char \<Rightarrow> nat" where
  "unhex c =
     (let n = (of_char c :: nat)
      in if 48 \<le> n \<and> n \<le> 57 then n - 48
         else if 97 \<le> n \<and> n \<le> 102 then n - 97 + 10
         else if 65 \<le> n \<and> n \<le> 70 then n - 65 + 10
         else 0)"

definition upperhex :: "nat \<Rightarrow> char" where
  "upperhex n = ''0123456789ABCDEF'' ! n"

definition shouldEscape :: "char \<Rightarrow> encoding \<Rightarrow> bool" where
  "shouldEscape c mode =
     (if is_alpha c \<or> is_digit c then False
      else if (mode = encodeHost \<or> mode = encodeZone)
              \<and> c \<in> set (''!$&()*+,;=:[]<>'' @ [squote, dquote]) then False
      else if c \<in> set ''-_.~'' then False
      else if c \<in> set ''$&+,/:;=?@'' \<and> mode = encodePath then c = CHR ''?''
      else if c \<in> set ''$&+,/:;=?@'' \<and> mode = encodePathSegment then c \<in> set ''/;,?''
      else if c \<in> set ''$&+,/:;=?@'' \<and> mode = encodeUserPassword then c \<in> set ''@/?:''
      else if c \<in> set ''$&+,/:;=?@'' \<and> mode = encodeQueryComponent then True
      else if c \<in> set ''$&+,/:;=?@'' \<and> mode = encodeFragment then False
      else if mode = encodeFragment \<and> c \<in> set ''!()*'' then False
      else True)"

text \<open>The first loop of \<^verbatim>\<open>unescape\<close>: are the escapes well formed for the mode?\<close>

fun unescape_ok :: "encoding \<Rightarrow> string \<Rightarrow> bool" where
  "unescape_ok mode [] = True"
| "unescape_ok mode (c # cs) =
     (if c = CHR ''%'' then
        (case cs of
           h1 # h2 # rest \<Rightarrow>
             if \<not> ishex h1 \<or> \<not> ishex h2 then False
             else if mode = encodeHost \<and> unhex h1 < 8 \<and> [c, h1, h2] \<noteq> ''%25'' then False
             else if mode = encodeZone \<and> [c, h1, h2] \<noteq> ''%25''
                     \<and> char_of (unhex h1 * 16 + unhex h2) \<noteq> CHR '' ''
                     \<and> shouldEscape (char_of (unhex h1 * 16 + unhex h2)) encodeHost then False
             else unescape_ok mode rest
         | _ \<Rightarrow> False)
      else if c = CHR ''+'' then unescape_ok mode cs
      else if (mode = encodeHost \<or> mode = encodeZone) \<and> (of_char c :: nat) < 128
              \<and> shouldEscape c encodeHost then False
      else unescape_ok mode cs)"

text \<open>The second loop of \<^verbatim>\<open>unescape\<close>, on a string that passed the first.\<close>

fun unescape_bytes :: "encoding \<Rightarrow> string \<Rightarrow> string" where
  "unescape_bytes mode [] = []"
| "unescape_bytes mode (c # cs) =
     (if c = CHR ''%'' then
        (case cs of
           h1 # h2 # rest \<Rightarrow> char_of (unhex h1 * 16 + unhex h2) # unescape_bytes mode rest
         | _ \<Rightarrow> [])
      else if c = CHR ''+'' then
        (if mode = encodeQueryComponent then CHR '' '' else CHR ''+'') # unescape_bytes mode cs
      else c # unescape_bytes mode cs)"

definition unescape :: "string \<Rightarrow> encoding \<Rightarrow> string option" where
  "unescape s mode = (if unescape_ok mode s then Some (unescape_bytes mode s) else None)"

definition escape :: "string \<Rightarrow> encoding \<Rightarrow> string" where
  "escape s mode =
     concat (map (\<lambda>c. if c = CHR '' '' \<and> mode = encodeQueryComponent then ''+''
                       else if shouldEscape c mode
                         then [CHR ''%'', upperhex (of_char c div 16), upperhex (of_char c mod 16)]
                       else [c]) s)"

fun getScheme_from :: "string \<Rightarrow> nat \<Rightarrow> string \<Rightarrow> (string \<times> string) option" where
  "getScheme_from rawURL i [] = Some ([], rawURL)"
| "getScheme_from rawURL i (c # cs) =
     (if is_alpha c then getScheme_from rawURL (Suc i) cs
      else if is_digit c \<or> c = CHR ''+'' \<or> c = CHR ''-'' \<or> c = CHR ''.'' then
        (if i = 0 then Some ([], rawURL) else getScheme_from rawURL (Suc i) cs)
      else if c = CHR '':'' then
        (if i = 0 then None else Some (take i rawURL, cs))
      else Some ([], rawURL))"

definition getScheme :: "string \<Rightarrow> (string \<times> string) option" where
  "getScheme rawURL = getScheme_from rawURL 0 rawURL"

definition to_lower :: "char \<Rightarrow> char" where
  "to_lower c =
     (let n = (of_char c :: nat) in if 65 \<le> n \<and> n \<le> 90 then char_of (n + 32) else c)"

definition stringContainsCTLByte :: "string \<Rightarrow> bool" where
  "stringContainsCTLByte s = (\<exists>c \<in> set s. (of_char c :: nat) < 32 \<or> (of_char c :: nat) = 127)"

definition validOptionalPort :: "string \<Rightarrow> bool" where
  "validOptionalPort port =
     (case port of
        [] \<Rightarrow> True
      | c # ds \<Rightarrow> c = CHR '':'' \<and> list_all is_digit ds)"

text \<open>\<^verbatim>\<open>strings.Index(s, sub)\<close>; \<open>None\<close> stands for \<open>-1\<close>.\<close>

fun strings_Index :: "string \<Rightarrow> string \<Rightarrow> nat option" where
  "strings_Index [] sub = (if sub = [] then Some 0 else None)"
| "strings_Index (c # cs) sub =
     (if prefix sub (c # cs) then Some 0 else map_option Suc (strings_Index cs sub))"

text \<open>\<^verbatim>\<open>strings.LastIndex(s, [c])\<close> for one byte; \<open>None\<close> stands for \<open>-1\<close>.\<close>

definition last_index_byte :: "string \<Rightarrow> char \<Rightarrow> nat option" where
  "last_index_byte s c =
     (let k = length (takeWhile (\<lambda>x. x \<noteq> c) (rev s))
      in if k < length s then Some (length s - Suc k) else None)"

definition parseHost :: "string \<Rightarrow> string option" where
  "parseHost host =
     (if prefix ''['' host then
        (case last_index_byte host (CHR '']'') of
           None \<Rightarrow> None
         | Some i \<Rightarrow>
             if \<not> validOptionalPort (drop (i + 1) host) then None
             else (case strings_Index (take i host) ''%25'' of
                     Some zone \<Rightarrow>
                       (case unescape (take zone host) encodeHost of
                          None \<Rightarrow> None
                        | Some host1 \<Rightarrow>
                            (case unescape (drop zone (take i host)) encodeZone of
                               None \<Rightarrow> None
                             | Some host2 \<Rightarrow>
                                 (case unescape (drop i host) encodeHost of
                                    None \<Rightarrow> None
                                  | Some host3 \<Rightarrow> Some (host1 @ host2 @ host3))))
                   | None \<Rightarrow> unescape host encodeHost))
      else (case last_index_byte host (CHR '':'') of
              Some i \<Rightarrow>
                if \<not> validOptionalPort (drop i host) then None else unescape host encodeHost
            | None \<Rightarrow> unescape host encodeHost))"

definition validUserinfo :: "string \<Rightarrow> bool" where
  "validUserinfo s =
     list_all (\<lambda>r. is_alpha r \<or> is_digit r \<or> r \<in> set (''-._:~!$&()*+,;=%@'' @ [squote])) s"

definition parseAuthority :: "string \<Rightarrow> ((string \<times> string option) option \<times> string) option" where
  "parseAuthority authority =
     (case last_index_byte authority (CHR ''@'') of
        None \<Rightarrow> map_option (\<lambda>host. (None, host)) (parseHost authority)
      | Some i \<Rightarrow>
          (case parseHost (drop (i + 1) authority) of
             None \<Rightarrow> None
           | Some host \<Rightarrow>
               let userinfo = take i authority in
               if \<not> validUserinfo userinfo then None
               else if \<not> strings_Contains userinfo '':'' then
                 (case unescape userinfo encodeUserPassword of
                    None \<Rightarrow> None
                  | Some username \<Rightarrow> Some (Some (username, None), host))
               else
                 (case cut_byte userinfo (CHR '':'') of
                    (username0, password0, _) \<Rightarrow>
                      (case unescape username0 encodeUserPassword of
                         None \<Rightarrow> None
                       | Some username \<Rightarrow>
                           (case unescape password0 encodeUserPassword of
                              None \<Rightarrow> None
                            | Some password \<Rightarrow> Some (Some (username, Some password), host))))))"

definition setPath :: "URL \<Rightarrow> string \<Rightarrow> URL option" where
  "setPath u p =
     (case unescape p encodePath of
        None \<Rightarrow> None
      | Some path \<Rightarrow>
          Some (u\<lparr>Path := path, RawPath := (if p = escape path encodePath then [] else p)\<rparr>))"

definition setFragment :: "URL \<Rightarrow> string \<Rightarrow> URL option" where
  "setFragment u f =
     (case unescape f encodeFragment of
        None \<Rightarrow> None
      | Some frag \<Rightarrow>
          Some (u\<lparr>Fragment := frag,
                  RawFragment := (if f = escape frag encodeFragment then [] else f)\<rparr>))"

text \<open>\<^verbatim>\<open>parse(rawURL, false)\<close>.\<close>

definition parse :: "string \<Rightarrow> URL option" where
  "parse rawURL =
     (if stringContainsCTLByte rawURL then None
      else if rawURL = ''*'' then Some (empty_URL\<lparr>Path := ''*''\<rparr>)
      else
        (case getScheme rawURL of
           None \<Rightarrow> None
         | Some (scheme0, rest0) \<Rightarrow>
             let scheme = map to_lower scheme0;
                 force = (suffix ''?'' rest0 \<and> count_list rest0 (CHR ''?'') = 1);
                 rest = (if force then butlast rest0 else fst (cut_byte rest0 (CHR ''?'')));
                 rawquery = (if force then [] else fst (snd (cut_byte rest0 (CHR ''?''))));
                 url = empty_URL\<lparr>Scheme := scheme, ForceQuery := force, RawQuery := rawquery\<rparr>
             in
             if \<not> prefix ''/'' rest \<and> scheme \<noteq> [] then Some (url\<lparr>Opaque := rest\<rparr>)
             else if \<not> prefix ''/'' rest
                     \<and> strings_Contains (fst (cut_byte rest (CHR ''/''))) '':'' then None
             else if (scheme \<noteq> [] \<or> \<not> prefix ''///'' rest) \<and> prefix ''//'' rest then
               (let authority = takeWhile (\<lambda>c. c \<noteq> CHR ''/'') (drop 2 rest);
                    rest' = dropWhile (\<lambda>c. c \<noteq> CHR ''/'') (drop 2 rest)
                in case parseAuthority authority of
                     None \<Rightarrow> None
                   | Some (user, host) \<Rightarrow> setPath (url\<lparr>User := user, Host := host\<rparr>) rest')
             else if scheme \<noteq> [] \<and> prefix ''/'' rest then setPath (url\<lparr>OmitHost := True\<rparr>) rest
             else setPath url rest))"

text \<open>\<^verbatim>\<open>url.Parse(rawURL)\<close>.\<close>

definition url_Parse :: "string \<Rightarrow> URL option" where
  "url_Parse rawURL =
     (case cut_byte rawURL (CHR ''#'') of
        (u, frag, _) \<Rightarrow>
          (case parse u of
             None \<Rightarrow> None
           | Some url \<Rightarrow> if frag = [] then Some url else setFragment url frag))"

definition splitHostPort :: "string \<Rightarrow> string \<times> string" where
  "splitHostPort hostPort =
     (let (host, port) =
            (case last_index_byte hostPort (CHR '':'') of
               Some colon \<Rightarrow>
                 if validOptionalPort (drop colon hostPort)
                 then (take colon hostPort, drop (colon + 1) hostPort)
                 else (hostPort, [])
             | None \<Rightarrow> (hostPort, []))
      in if prefix ''['' host \<and> suffix '']'' host
         then (take (length host - 2) (drop 1 host), port)
         else (host, port))"

definition Hostname :: "URL \<Rightarrow> string" where
  "Hostname u = fst (splitHostPort (Host u))"

definition Port :: "URL \<Rightarrow> string" where
  "Port u = snd (splitHostPort (Host u))"

text \<open>
  \<^verbatim>\<open>url.Values\<close> is a Go map from a key to the list of its values.  It is kept as the
  list of its entries, one per key, in the order in which the keys were first inserted;
  Go itself gives the entries of a map no order.
\<close>

type_synonym Values = "(string \<times> string list) list"

text \<open>\<^verbatim>\<open>m[key] = append(m[key], value)\<close>.\<close>

fun values_append :: "Values \<Rightarrow> string \<Rightarrow> string \<Rightarrow> Values" where
  "values_append [] key v = [(key, [v])]"
| "values_append ((k, vs) # m) key v =
     (if k = key then (k, vs @ [v]) # m else (k, vs) # values_append m key v)"

text \<open>
  The loop of \<^verbatim>\<open>parseQuery\<close>; the error it also returns is dropped, as \<^verbatim>\<open>Query\<close> drops
  it.
\<close>

function parseQuery :: "Values \<Rightarrow> string \<Rightarrow> Values" where
  "parseQuery m query =
     (if query = [] then m
      else
        (let key0 = fst (cut_byte query (CHR ''&''));
             query' = fst (snd (cut_byte query (CHR ''&'')))
         in if strings_Contains key0 '';'' then parseQuery m query'
            else if key0 = [] then parseQuery m query'
            else
              (case unescape (fst (cut_byte key0 (CHR ''=''))) encodeQueryComponent of
                 None \<Rightarrow> parseQuery m query'
               | Some key \<Rightarrow>
                   (case unescape (fst (snd (cut_byte key0 (CHR ''='')))) encodeQueryComponent of
                      None \<Rightarrow> parseQuery m query'
                    | Some v \<Rightarrow> parseQuery (values_append m key v) query'))))"
  by pat_completeness auto
termination
  by (relation "measure (\<lambda>(m, query). length query)") (auto simp: cut_byte_def Let_def)

declare parseQuery.simps [simp del]

definition Query :: "URL \<Rightarrow> Values" where
  "Query u = parseQuery [] (RawQuery u)"

definition validEncoded :: "string \<Rightarrow> encoding \<Rightarrow> bool" where
  "validEncoded s mode =
     list_all (\<lambda>c. c \<in> set (''!$&()*+,;=:@[]%'' @ [squote]) \<or> \<not> shouldEscape c mode) s"

definition EscapedPath :: "URL \<Rightarrow> string" where
  "EscapedPath u =
     (if RawPath u \<noteq> [] \<and> validEncoded (RawPath u) encodePath
         \<and> unescape (RawPath u) encodePath = Some (Path u) then RawPath u
      else if Path u = ''*'' then ''*''
      else escape (Path u) encodePath)"

definition EscapedFragment :: "URL \<Rightarrow> string" where
  "EscapedFragment u =
     (if RawFragment u \<noteq> [] \<and> validEncoded (RawFragment u) encodeFragment
         \<and> unescape (RawFragment u) encodeFragment = Some (Fragment u) then RawFragment u
      else escape (Fragment u) encodeFragment)"

definition Userinfo_String :: "(string \<times> string option) \<Rightarrow> string" where
  "Userinfo_String ui =
     (case ui of
        (username, None) \<Rightarrow> escape username encodeUserPassword
      | (username, Some password) \<Rightarrow>
          escape username encodeUserPassword @ '':'' @ escape password encodeUserPassword)"

text \<open>\<^verbatim>\<open>(*URL).String()\<close>; \<open>buf\<close> is the text written so far.\<close>

definition URL_String :: "URL \<Rightarrow> string" where
  "URL_String u =
     (let buf0 = (if Scheme u \<noteq> [] then Scheme u @ '':'' else []);
          buf1 =
            (if Opaque u \<noteq> [] then buf0 @ Opaque u
             else
               (let buf2 =
                      (if Scheme u \<noteq> [] \<or> Host u \<noteq> [] \<or> User u \<noteq> None then
                         (if OmitHost u \<and> Host u = [] \<and> User u = None then buf0
                          else
                            buf0
                            @ (if Host u \<noteq> [] \<or> Path u \<noteq> [] \<or> User u \<noteq> None then ''//'' else [])
                            @ (case User u of None \<Rightarrow> [] | Some ui \<Rightarrow> Userinfo_String ui @ ''@'')
                            @ (if Host u \<noteq> [] then escape (Host u) encodeHost else []))
                       else buf0);
                    path = EscapedPath u;
                    buf3 = (if path \<noteq> [] \<and> hd path \<noteq> CHR ''/'' \<and> Host u \<noteq> []
                            then buf2 @ ''/'' else buf2);
                    buf4 = (if buf3 = [] \<and> strings_Contains (fst (cut_byte path (CHR ''/''))) '':''
                            then buf3 @ ''./'' else buf3)
                in buf4 @ path))
      in buf1
         @ (if ForceQuery u \<or> RawQuery u \<noteq> [] then ''?'' @ RawQuery u else [])
         @ (if Fragment u \<noteq> [] then ''#'' @ EscapedFragment u else []))"

subsection \<open>The request entry that \<^verbatim>\<open>parseCurlCommand\<close> builds\<close>

text \<open>
  The Go code returns nested \<^verbatim>\<open>map[string]interface{}\<close> values with fixed keys; each
  map is a record here.  \<open>'q\<close> is the type of the \<^verbatim>\<open>"query"\<close> entry, which differs
  between the two files.
\<close>

record header_entry =
  header_key :: string
  header_value :: string

record body_json =
  mode :: string
  body_raw :: string

record 'q url_json =
  url_raw :: string
  protocol :: string
  host :: "string list"
  port :: string
  path :: "string list"
  query :: 'q

record 'q request_json =
  http_method :: string
  header :: "header_entry list"
  body :: body_json
  url :: "'q url_json"

record 'q item_json =
  name :: string
  disableBodyPruning :: bool
  request :: "'q request_json"
  response :: "unit list"

record query_entry =
  query_key :: string
  query_value :: string
  disabled :: bool

subsection \<open>\<^verbatim>\<open>parseCurlCommand\<close>: the steps the two files share\<close>

text \<open>
  \<^verbatim>\<open>method, extractedUrl := "GET", ""\<close>, overwritten by the groups of the leftmost match
  when \<^verbatim>\<open>len(matches) > 2\<close>.  \<open>r\<close> is the file's \<^verbatim>\<open>reMethodAndUrl\<close>.
\<close>

definition extractMethodAndUrl :: "re \<Rightarrow> string \<Rightarrow> string \<times> string" where
  "extractMethodAndUrl r curlCommand =
     (let matches = FindStringSubmatch r curlCommand
      in if length matches > 2 then (matches ! 1, matches ! 2) else (''GET'', []))"

text \<open>\<^verbatim>\<open>if !strings.Contains(extractedUrl, "://") { extractedUrl = "http://" + extractedUrl }\<close>\<close>

definition withDefaultScheme :: "string \<Rightarrow> string" where
  "withDefaultScheme extractedUrl =
     (if \<not> strings_Contains extractedUrl ''://'' then ''http://'' @ extractedUrl
      else extractedUrl)"

text \<open>The loop over \<^verbatim>\<open>reHeader.FindAllStringSubmatch(curlCommand, -1)\<close>.\<close>

definition extractHeaders :: "string \<Rightarrow> header_entry list" where
  "extractHeaders curlCommand =
     map (\<lambda>match. \<lparr>header_key = match ! 1, header_value = match ! 2\<rparr>)
       (FindAllStringSubmatch reHeader curlCommand)"

subsection \<open>\<^verbatim>\<open>src/main.go\<close>\<close>

text \<open>
  \<^verbatim>\<open>parsedUrl, _ := url.Parse(extractedUrl)\<close> drops the error; on an error \<^verbatim>\<open>parsedUrl\<close>
  is \<^verbatim>\<open>nil\<close> and the next statement, \<^verbatim>\<open>parsedUrl.Query()\<close>, reads a field through it:
  the program panics.

  The query entries are built by a \<^verbatim>\<open>range\<close> over the map \<^verbatim>\<open>parsedUrl.Query()\<close>.  Go
  leaves the order of such a loop to the runtime, so the order is a parameter:
  \<open>order m\<close> is the sequence in which the loop visits the entries of \<open>m\<close>, some
  permutation of them.
\<close>

datatype go_panic = NilPointerDereference

definition parseCurlCommand_main_go ::
  "(Values \<Rightarrow> Values) \<Rightarrow> string \<Rightarrow> go_panic + query_entry list item_json" where
  "parseCurlCommand_main_go order curlCommand0 =
     (let curlCommand = normalize curlCommand0;
          method = fst (extractMethodAndUrl reMethodAndUrl_main_go curlCommand);
          extractedUrl =
            withDefaultScheme (snd (extractMethodAndUrl reMethodAndUrl_main_go curlCommand))
      in case url_Parse extractedUrl of
           None \<Rightarrow> Inl NilPointerDereference
         | Some parsedUrl \<Rightarrow>
             (let query =
                    concat (map (\<lambda>(key, vals).
                                   map (\<lambda>v. \<lparr>query_key = key, query_value = v, disabled = False\<rparr>)
                                     vals)
                              (order (Query parsedUrl)));
                  headers = extractHeaders curlCommand;
                  dataRawMatch = FindStringSubmatch reDataRaw curlCommand;
                  rawData = (if length dataRawMatch > 1 then dataRawMatch ! 1 else []);
                  mode = (if length dataRawMatch > 1 then ''raw'' else ''none'')
              in Inr \<lparr>name = ''Generated from Curl'',
                      disableBodyPruning = True,
                      request =
                        \<lparr>http_method = method,
                         header = headers,
                         body = \<lparr>mode = mode, body_raw = rawData\<rparr>,
                         url =
                           \<lparr>url_raw = URL_String parsedUrl,
                            protocol = Scheme parsedUrl,
                            host = [Hostname parsedUrl],
                            port = Port parsedUrl,
                            path = [strings_TrimLeft (Path parsedUrl) ''/''],
                            query = query\<rparr>\<rparr>,
                      response = []\<rparr>))"

text \<open>
  The loop of \<^verbatim>\<open>main\<close> over the fixture files, from the point where a file has been
  decoded: a fixture is \<open>Some curl\<close> when \<^verbatim>\<open>yamlData["curl"].(string)\<close> succeeds and
  \<open>None\<close> otherwise.  \<open>items\<close> is \<^verbatim>\<open>collection.Items\<close>.  A panic ends the program.
\<close>

fun collect_main_go ::
  "(Values \<Rightarrow> Values) \<Rightarrow> query_entry list item_json list \<Rightarrow> string option list
     \<Rightarrow> go_panic + query_entry list item_json list" where
  "collect_main_go order items [] = Inr items"
| "collect_main_go order items (None # fixtures) = collect_main_go order items fixtures"
| "collect_main_go order items (Some curl # fixtures) =
     (case parseCurlCommand_main_go order curl of
        Inl p \<Rightarrow> Inl p
      | Inr requestJSON \<Rightarrow> collect_main_go order (items @ [requestJSON]) fixtures)"

subsection \<open>\<^verbatim>\<open>src/unnamed/part_000\<close>\<close>

text \<open>
  This file returns \<^verbatim>\<open>nil\<close> (here \<open>None\<close>) when the URL does not parse or has no host
  name.  Its \<^verbatim>\<open>"query"\<close> entry is the map \<^verbatim>\<open>parsedUrl.Query()\<close> itself.
\<close>

definition parseCurlCommand_part_000 ::
  "string \<Rightarrow> (string \<rightharpoonup> string list) item_json option" where
  "parseCurlCommand_part_000 curlCommand0 =
     (let curlCommand = normalize curlCommand0;
          method = fst (extractMethodAndUrl reMethodAndUrl_part_000 curlCommand);
          extractedUrl =
            withDefaultScheme (snd (extractMethodAndUrl reMethodAndUrl_part_000 curlCommand))
      in case url_Parse extractedUrl of
           None \<Rightarrow> None
         | Some parsedUrl \<Rightarrow>
             if Hostname parsedUrl = [] then None
             else
               (let headers = extractHeaders curlCommand;
                    dataMatch =
                      (if length (FindStringSubmatch reData curlCommand) = 0
                       then FindStringSubmatch reDataRaw curlCommand
                       else FindStringSubmatch reData curlCommand);
                    rawData = (if length dataMatch > 1 then dataMatch ! 1 else []);
                    pathSegments = split_byte (CHR ''/'') (strings_Trim (Path parsedUrl) ''/'');
                    name = (if length pathSegments > 0
                            then pathSegments ! (length pathSegments - 1)
                            else ''Generated from Curl'')
                in Some \<lparr>name = name,
                         disableBodyPruning = True,
                         request =
                           \<lparr>http_method = method,
                            header = headers,
                            body = \<lparr>mode = ''raw'', body_raw = rawData\<rparr>,
                            url =
                              \<lparr>url_raw = URL_String parsedUrl,
                               protocol = Scheme parsedUrl,
                               host = [Hostname parsedUrl],
                               port = Port parsedUrl,
                               path = [strings_TrimLeft (Path parsedUrl) ''/''],
                               query = map_of (Query parsedUrl)\<rparr>\<rparr>,
                         response = []\<rparr>))"

text \<open>
  The same loop of \<^verbatim>\<open>main\<close>.  The result of \<^verbatim>\<open>parseCurlCommand\<close> is appended whatever
  it is, so an element of \<^verbatim>\<open>collection.Items\<close> is \<open>None\<close> when it is the \<^verbatim>\<open>nil\<close> map
  (which \<^verbatim>\<open>json.MarshalIndent\<close> writes as \<^verbatim>\<open>null\<close>).
\<close>

fun collect_part_000 ::
  "(string \<rightharpoonup> string list) item_json option list \<Rightarrow> string option list
     \<Rightarrow> (string \<rightharpoonup> string list) item_json option list" where
  "collect_part_000 items [] = items"
| "collect_part_000 items (None # fixtures) = collect_part_000 items fixtures"
| "collect_part_000 items (Some curl # fixtures) =
     collect_part_000 (items @ [parseCurlCommand_part_000 curl]) fixtures"

text \<open>
  \<open>matches_at r s i\<close>: the pattern \<open>r\<close> has a match that starts at offset \<open>i\<close> of \<open>s\<close>.
\<close>

definition matches_at :: "re \<Rightarrow> string \<Rightarrow> nat \<Rightarrow> bool" where
  "matches_at r s i = (ms r (drop i s) \<noteq> [])"

section \<open>The specification's wording, for comparison with what the code does\<close>

subsection \<open>The text normalizer as the specification words it\<close>

fun join_continuations :: "string \<Rightarrow> string" where
  "join_continuations [] = []"
| "join_continuations [c] = [c]"
| "join_continuations (c # d # cs) =
     (if c = backslash \<and> d = newline then CHR '' '' # join_continuations cs
      else c # join_continuations (d # cs))"

definition newline_to_space :: "char \<Rightarrow> char" where
  "newline_to_space c = (if c = newline then CHR '' '' else c)"

definition normalize_spec :: "string \<Rightarrow> string" where
  "normalize_spec s = map newline_to_space (join_continuations s)"

fun normalize_one_pass :: "string \<Rightarrow> string" where
  "normalize_one_pass [] = []"
| "normalize_one_pass [c] = [newline_to_space c]"
| "normalize_one_pass (c # d # cs) =
     (if c = backslash \<and> d = newline then CHR '' '' # normalize_one_pass cs
      else newline_to_space c # normalize_one_pass (d # cs))"


subsection \<open>The header scan as the specification words it\<close>

text \<open>
  An occurrence of the shape \<^verbatim>\<open>--header '<key>: <value>'\<close> at the start of a text: the
  flag, an opening quote, the quoted text up to the closing quote, which is the next quote.
  Within the quoted text the key is everything before the first colon, a colon and a
  space follow, and the value is everything after them up to the closing quote.  The
  result is the key, the value and the text after the closing quote.
\<close>

definition header_occurrence :: "string \<Rightarrow> (string \<times> string \<times> string) option" where
  "header_occurrence s =
     (if prefix (''--header '' @ [squote]) s then
        (let a = drop (length (''--header '' @ [squote])) s;
             quoted_text = takeWhile (\<lambda>c. c \<noteq> squote) a;
             after = dropWhile (\<lambda>c. c \<noteq> squote) a;
             k = takeWhile (\<lambda>c. c \<noteq> CHR '':'') quoted_text;
             b = dropWhile (\<lambda>c. c \<noteq> CHR '':'') quoted_text
         in if after \<noteq> [] \<and> k \<noteq> [] \<and> prefix '': '' b
            then Some (k, drop (length '': '') b, tl after)
            else None)
      else None)"

text \<open>
  The header list of the specification: one entry per occurrence, in the order of
  appearance, scanning the whole text.
\<close>

function headers_spec :: "string \<Rightarrow> header_entry list" where
  "headers_spec [] = []"
| "headers_spec (c # cs) =
     (case header_occurrence (c # cs) of
        Some (k, v, rest) \<Rightarrow> \<lparr>header_key = k, header_value = v\<rparr> # headers_spec rest
      | None \<Rightarrow> headers_spec cs)"
  by pat_completeness auto
termination
proof (relation "measure length")
  show "wf (measure length)" by simp
next
  fix c cs x2 x y xa ya
  assume "header_occurrence (c # cs) = Some x2" "(x, y) = x2" "(xa, ya) = y"
  then have "header_occurrence (c # cs) = Some (x, xa, ya)" by simp
  then have ya: "ya = tl (dropWhile (\<lambda>c. c \<noteq> squote) (drop 10 (c # cs)))"
    by (auto simp: header_occurrence_def Let_def eval_nat_numeral split: if_splits)
  have "length ya \<le> length (dropWhile (\<lambda>c. c \<noteq> squote) (drop 10 (c # cs)))"
    unfolding ya by simp
  also have "\<dots> \<le> length (drop 10 (c # cs))" by (rule length_dropWhile_le)
  also have "\<dots> < length (c # cs)" by simp
  finally show "(ya, c # cs) \<in> measure length" by simp
next
  fix c :: char and cs :: string
  show "(cs, c # cs) \<in> measure length" by simp
qed

subsection \<open>The URL resolver as the specification words it\<close>

text \<open>
  A token has a \<^verbatim>\<open>scheme://\<close> prefix when it starts with a scheme name followed by
  \<^verbatim>\<open>://\<close>.
\<close>

definition has_scheme_prefix :: "string \<Rightarrow> bool" where
  "has_scheme_prefix tok =
     (let s = takeWhile (\<lambda>c. is_alpha c \<or> is_digit c \<or> c \<in> set ''+-.'') tok
      in s \<noteq> [] \<and> prefix ''://'' (drop (length s) tok))"

text \<open>
  The path segments of the specification: the path split on \<^verbatim>\<open>/\<close>, the empty segments
  at both edges trimmed.
\<close>

definition path_segments_spec :: "string \<Rightarrow> string list" where
  "path_segments_spec p =
     rev (dropWhile (\<lambda>seg. seg = []) (rev (dropWhile (\<lambda>seg. seg = []) (split_byte (CHR ''/'') p))))"

subsection \<open>The header pattern of the code read as a scan\<close>

text \<open>
  \<open>header_at\<close> and \<open>header_scan\<close> restate what the code's pattern
  \<^verbatim>\<open>--header '([^:]+): ([^']*)'\<close> does, for use in the proofs: the key is the text
  up to the first colon whatever it contains, a quote included, so that it can run on
  past the closing quote of the flag.  This is not the specification's header scan.
\<close>

definition header_at :: "string \<Rightarrow> (string \<times> string \<times> string) option" where
  "header_at s =
     (if prefix (''--header '' @ [squote]) s then
        (let a = drop (length (''--header '' @ [squote])) s;
             k = takeWhile (\<lambda>c. c \<noteq> CHR '':'') a;
             b = dropWhile (\<lambda>c. c \<noteq> CHR '':'') a
         in if k \<noteq> [] \<and> prefix '': '' b then
              (let v = takeWhile (\<lambda>c. c \<noteq> squote) (drop (length '': '') b);
                   d = dropWhile (\<lambda>c. c \<noteq> squote) (drop (length '': '') b)
               in if d \<noteq> [] then Some (k, v, tl d) else None)
            else None)
      else None)"

function header_scan :: "string \<Rightarrow> header_entry list" where
  "header_scan [] = []"
| "header_scan (c # cs) =
     (case header_at (c # cs) of
        Some (k, v, rest) \<Rightarrow> \<lparr>header_key = k, header_value = v\<rparr> # header_scan rest
      | None \<Rightarrow> header_scan cs)"
  by pat_completeness auto
termination
proof (relation "measure length")
  show "wf (measure length)" by simp
next
  fix c cs x2 x y xa ya
  assume "header_at (c # cs) = Some x2" "(x, y) = x2" "(xa, ya) = y"
  then have "header_at (c # cs) = Some (x, xa, ya)" by simp
  then have ya: "ya = tl (dropWhile (\<lambda>c. c \<noteq> squote)
      (drop 2 (dropWhile (\<lambda>c. c \<noteq> CHR '':'') (drop 10 (c # cs)))))"
    by (auto simp: header_at_def Let_def eval_nat_numeral split: if_splits)
  have "length ya \<le> length (dropWhile (\<lambda>c. c \<noteq> CHR '':'') (drop 10 (c # cs)))"
    unfolding ya by (simp add: le_diff_conv trans_le_add1 length_dropWhile_le le_trans [OF length_dropWhile_le])
  also have "\<dots> \<le> length (drop 10 (c # cs))" by (rule length_dropWhile_le)
  also have "\<dots> < length (c # cs)" by simp
  finally show "(ya, c # cs) \<in> measure length" by simp
next
  fix c :: char and cs :: string
  show "(cs, c # cs) \<in> measure length" by simp
qed


definition entry_of :: "string list \<Rightarrow> header_entry" where
  "entry_of m = \<lparr>header_key = m ! 1, header_value = m ! 2\<rparr>"

subsection \<open>An auxiliary function of the proofs\<close>

text \<open>
  What \<^verbatim>\<open>\}\<close> after the lazy \<^verbatim>\<open>.*?\<close> makes of one way \<open>(w, t)\<close> of splitting the text:
  a match when a closing brace follows.
\<close>

definition close_brace :: "string \<times> string \<Rightarrow> (string \<times> string list \<times> string) list" where
  "close_brace = (\<lambda>(w, t). if prefix ''}'' t then [(w @ ''}'', [], drop 1 t)] else [])"

section \<open>Lemmas\<close>

lemma Replace_all_Nil: "old \<noteq> [] \<Longrightarrow> strings_Replace_all [] old new = []"
  by (simp add: strings_Replace_all.simps)

lemma Replace_all_Cons:
  "old \<noteq> [] \<Longrightarrow> strings_Replace_all (c # cs) old new =
     (if prefix old (c # cs) then new @ strings_Replace_all (drop (length old) (c # cs)) old new
      else c # strings_Replace_all cs old new)"
  by (subst strings_Replace_all.simps) simp

lemma Replace_continuations:
  "strings_Replace_all s [backslash, newline] '' '' = join_continuations s"
  by (induction s rule: join_continuations.induct)
     (auto simp: Replace_all_Nil Replace_all_Cons)

lemma Replace_newlines:
  "strings_Replace_all s [newline] '' '' = map newline_to_space s"
  by (induction s) (auto simp: Replace_all_Nil Replace_all_Cons newline_to_space_def)

lemma one_pass_eq: "normalize_one_pass s = map newline_to_space (join_continuations s)"
  by (induction s rule: join_continuations.induct) (auto simp: newline_to_space_def)


lemma greedy_concat:
  assumes "\<And>w t. t \<noteq> [] \<Longrightarrow> p (hd t) \<Longrightarrow> F (w, t) = []"
  shows "concat (map F (greedy p s)) = F (takeWhile p s, dropWhile p s)"
  using assms
proof (induction s arbitrary: F)
  case Nil
  show ?case by simp
next
  case (Cons c cs)
  show ?case
  proof (cases "p c")
    case True
    have last: "F ([], c # cs) = []" using Cons.prems [of "c # cs" "[]"] True by simp
    have "concat (map (F \<circ> (\<lambda>(w, r). (c # w, r))) (greedy p cs))
          = (F \<circ> (\<lambda>(w, r). (c # w, r))) (takeWhile p cs, dropWhile p cs)"
      by (rule Cons.IH) (auto simp: Cons.prems)
    with True last show ?thesis by simp
  next
    case False
    then show ?thesis by simp
  qed
qed

lemma greedy_concat_nonempty:
  assumes "\<And>w t. t \<noteq> [] \<Longrightarrow> p (hd t) \<Longrightarrow> F (w, t) = []"
  shows "concat (map F (filter (\<lambda>(w, t). w \<noteq> []) (greedy p s)))
         = (if takeWhile p s = [] then [] else F (takeWhile p s, dropWhile p s))"
proof -
  have "concat (map F (filter (\<lambda>(w, t). w \<noteq> []) xs))
        = concat (map (\<lambda>(w, t). if w \<noteq> [] then F (w, t) else []) xs)" for xs
    by (induction xs) auto
  moreover have "concat (map (\<lambda>(w, t). if w \<noteq> [] then F (w, t) else []) (greedy p s))
        = (\<lambda>(w, t). if w \<noteq> [] then F (w, t) else []) (takeWhile p s, dropWhile p s)"
    by (rule greedy_concat) (auto simp: assms)
  ultimately show ?thesis by simp
qed

lemma in_cls_Not: "in_cls (Not x) = (\<lambda>c. c \<noteq> x)"
  by (rule ext) simp

lemma ms_Cat_Lit:
  "ms (Cat (Lit l) b) s =
     (if prefix l s then map (\<lambda>(w2, g2, t2). (l @ w2, g2, t2)) (ms b (drop (length l) s)) else [])"
  by simp

lemma ms_Cat_Cap_Plus:
  assumes "\<And>t. t \<noteq> [] \<Longrightarrow> in_cls c (hd t) \<Longrightarrow> ms b t = []"
  shows "ms (Cat (Cap (Plus c)) b) s =
     (if takeWhile (in_cls c) s = [] then []
      else map (\<lambda>(w2, g2, t2). (takeWhile (in_cls c) s @ w2, takeWhile (in_cls c) s # g2, t2))
             (ms b (dropWhile (in_cls c) s)))"
proof -
  let ?F = "\<lambda>(w, t). map (\<lambda>(w2, g2, t2). (w @ w2, w # g2, t2)) (ms b t)"
  have "ms (Cat (Cap (Plus c)) b) s
        = concat (map ?F (filter (\<lambda>(w, t). w \<noteq> []) (greedy (in_cls c) s)))"
    by (simp add: comp_def case_prod_unfold)
  also have "\<dots> = (if takeWhile (in_cls c) s = [] then []
                    else ?F (takeWhile (in_cls c) s, dropWhile (in_cls c) s))"
    by (rule greedy_concat_nonempty) (auto simp: assms)
  finally show ?thesis by simp
qed

lemma ms_Cat_Cap_Star:
  assumes "\<And>t. t \<noteq> [] \<Longrightarrow> in_cls c (hd t) \<Longrightarrow> ms b t = []"
  shows "ms (Cat (Cap (Star c)) b) s =
     map (\<lambda>(w2, g2, t2). (takeWhile (in_cls c) s @ w2, takeWhile (in_cls c) s # g2, t2))
       (ms b (dropWhile (in_cls c) s))"
proof -
  let ?F = "\<lambda>(w, t). map (\<lambda>(w2, g2, t2). (w @ w2, w # g2, t2)) (ms b t)"
  have "ms (Cat (Cap (Star c)) b) s = concat (map ?F (greedy (in_cls c) s))"
    by (simp add: comp_def case_prod_unfold)
  also have "\<dots> = ?F (takeWhile (in_cls c) s, dropWhile (in_cls c) s)"
    by (rule greedy_concat) (auto simp: assms)
  finally show ?thesis by simp
qed

lemma ms_Lit_hd: "t \<noteq> [] \<Longrightarrow> hd t \<noteq> x \<Longrightarrow> ms (Lit (x # l)) t = []"
  by (cases t) auto

lemma ms_Cat_Lit_hd: "t \<noteq> [] \<Longrightarrow> hd t \<noteq> x \<Longrightarrow> ms (Cat (Lit (x # l)) b) t = []"
  by (cases t) auto

lemma ms_reHeader:
  "ms reHeader s =
     (case header_at s of
        None \<Rightarrow> []
      | Some (k, v, rest) \<Rightarrow>
          [(''--header '' @ [squote] @ k @ '': '' @ v @ [squote], [k, v], rest)])"
proof -
  have v: "ms (Cat (Cap (Star (Not squote))) (Lit [squote])) t =
      (if dropWhile (\<lambda>c. c \<noteq> squote) t \<noteq> []
       then [(takeWhile (\<lambda>c. c \<noteq> squote) t @ [squote], [takeWhile (\<lambda>c. c \<noteq> squote) t],
              tl (dropWhile (\<lambda>c. c \<noteq> squote) t))]
       else [])" for t
  proof -
    let ?d = "dropWhile (\<lambda>c. c \<noteq> squote) t"
    have "ms (Cat (Cap (Star (Not squote))) (Lit [squote])) t =
      map (\<lambda>(w2, g2, t2). (takeWhile (in_cls (Not squote)) t @ w2,
                            takeWhile (in_cls (Not squote)) t # g2, t2))
        (ms (Lit [squote]) (dropWhile (in_cls (Not squote)) t))"
      by (rule ms_Cat_Cap_Star) (simp add: ms_Lit_hd del: ms.simps)
    then have step: "ms (Cat (Cap (Star (Not squote))) (Lit [squote])) t =
      map (\<lambda>(w2, g2, t2). (takeWhile (\<lambda>c. c \<noteq> squote) t @ w2,
                            takeWhile (\<lambda>c. c \<noteq> squote) t # g2, t2))
        (ms (Lit [squote]) ?d)"
      by (simp only: in_cls_Not)
    show ?thesis
    proof (cases ?d)
      case Nil
      show ?thesis unfolding step Nil by simp
    next
      case (Cons y ys)
      then have "y = squote" using hd_dropWhile [of "\<lambda>c. c \<noteq> squote" t] by auto
      with Cons have d: "?d = squote # ys" by simp
      show ?thesis unfolding step d by simp
    qed
  qed
  have k: "ms (Cat (Cap (Plus (Not CHR '':''))) (Cat (Lit '': '') (Cat (Cap (Star (Not squote))) (Lit [squote])))) a =
      (if takeWhile (\<lambda>c. c \<noteq> CHR '':'') a = [] then []
       else map (\<lambda>(w2, g2, t2). (takeWhile (\<lambda>c. c \<noteq> CHR '':'') a @ w2,
                                  takeWhile (\<lambda>c. c \<noteq> CHR '':'') a # g2, t2))
             (ms (Cat (Lit '': '') (Cat (Cap (Star (Not squote))) (Lit [squote])))
                (dropWhile (\<lambda>c. c \<noteq> CHR '':'') a)))" for a
    using ms_Cat_Cap_Plus [of "Not CHR '':''" "Cat (Lit '': '') (Cat (Cap (Star (Not squote))) (Lit [squote]))" a]
    by (simp add: ms_Cat_Lit_hd in_cls_Not del: ms.simps)
  show ?thesis
    unfolding reHeader_def
    apply (subst ms_Cat_Lit)
    apply (subst k)
    apply (subst ms_Cat_Lit)
    apply (subst v)
    apply (auto simp add: header_at_def Let_def simp del: ms.simps)
    done
qed




lemma find_from_Some:
  "find_from r i s = Some (j, w, gs, t) \<Longrightarrow>
     \<exists>d. d \<le> length s \<and> j = i + d \<and> ms r (drop d s) \<noteq> [] \<and> hd (ms r (drop d s)) = (w, gs, t)"
proof (induction s arbitrary: i)
  case Nil
  then show ?case by (auto split: list.splits)
next
  case (Cons c cs)
  show ?case
  proof (cases "ms r (c # cs)")
    case Nil
    with Cons.prems have "find_from r (Suc i) cs = Some (j, w, gs, t)" by simp
    from Cons.IH [OF this] obtain d where
      "d \<le> length cs" "j = Suc i + d" "ms r (drop d cs) \<noteq> []" "hd (ms r (drop d cs)) = (w, gs, t)"
      by blast
    then show ?thesis by (intro exI [of _ "Suc d"]) simp
  next
    case (Cons m rest)
    with Cons.prems show ?thesis by (intro exI [of _ 0]) (auto split: prod.splits)
  qed
qed

lemma find_from_None:
  "find_from r i s = None \<Longrightarrow> d \<le> length s \<Longrightarrow> ms r (drop d s) = []"
proof (induction s arbitrary: i d)
  case Nil
  then show ?case by (auto split: list.splits)
next
  case (Cons c cs)
  from Cons.prems(1) have here: "ms r (c # cs) = []" and rest: "find_from r (Suc i) cs = None"
    by (auto split: list.splits)
  show ?case
  proof (cases d)
    case 0
    with here show ?thesis by simp
  next
    case (Suc d')
    with Cons.prems(2) Cons.IH [OF rest, of d'] show ?thesis by simp
  qed
qed

lemma header_at_Some:
  "header_at s = Some (k, v, rest) \<Longrightarrow>
     s = ''--header '' @ [squote] @ k @ '': '' @ v @ [squote] @ rest
     \<and> k \<noteq> [] \<and> CHR '':'' \<notin> set k \<and> squote \<notin> set v"
proof -
  assume h: "header_at s = Some (k, v, rest)"
  let ?a = "drop (length (''--header '' @ [squote])) s"
  let ?b = "dropWhile (\<lambda>c. c \<noteq> CHR '':'') ?a"
  let ?c = "drop (length '': '') ?b"
  let ?d = "dropWhile (\<lambda>c. c \<noteq> squote) ?c"
  from h have p: "prefix (''--header '' @ [squote]) s"
    and k: "k = takeWhile (\<lambda>c. c \<noteq> CHR '':'') ?a" "k \<noteq> []"
    and b: "prefix '': '' ?b"
    and v: "v = takeWhile (\<lambda>c. c \<noteq> squote) ?c"
    and d: "?d \<noteq> []" "rest = tl ?d"
    by (auto simp: header_at_def Let_def split: if_splits)
  from p have s: "s = (''--header '' @ [squote]) @ ?a"
    by (metis append_eq_conv_conj prefix_def)
  have a: "?a = k @ ?b" unfolding k by simp
  from b have b': "?b = '': '' @ ?c"
    by (metis append_eq_conv_conj prefix_def)
  have c: "?c = v @ ?d" unfolding v by simp
  from d hd_dropWhile [of "\<lambda>c. c \<noteq> squote" ?c] have d': "?d = squote # rest"
    by (cases ?d) auto
  have "s = (''--header '' @ [squote]) @ k @ '': '' @ v @ squote # rest"
    using s a b' c d' by metis
  moreover have "CHR '':'' \<notin> set k" unfolding k(1) by (auto dest: set_takeWhileD)
  moreover have "squote \<notin> set v" unfolding v by (auto dest: set_takeWhileD)
  ultimately show ?thesis using k(2) by simp
qed

lemma header_scan_find:
  "header_scan s =
     (case find_from reHeader i s of
        None \<Rightarrow> []
      | Some (j, w, gs, t) \<Rightarrow> entry_of (w # gs) # header_scan t)"
proof (induction s arbitrary: i)
  case Nil
  show ?case by (simp add: ms_reHeader header_at_def del: ms.simps)
next
  case (Cons c cs)
  show ?case
  proof (cases "header_at (c # cs)")
    case None
    then show ?thesis using Cons.IH [of "Suc i"]
      by (simp add: ms_reHeader del: ms.simps)
  next
    case (Some x)
    then show ?thesis
      by (cases x) (simp add: ms_reHeader entry_of_def del: ms.simps)
  qed
qed

lemma find_from_reHeader_shorter:
  assumes "find_from reHeader i s = Some (j, w, gs, t)"
  shows "w \<noteq> [] \<and> length t < length s"
proof -
  from find_from_Some [OF assms] obtain d where
    d: "d \<le> length s" "ms reHeader (drop d s) \<noteq> []" "hd (ms reHeader (drop d s)) = (w, gs, t)"
    by blast
  from d(2) obtain k v rest where h: "header_at (drop d s) = Some (k, v, rest)"
    by (auto simp: ms_reHeader simp del: ms.simps split: option.splits)
  with d(3) have w: "w = ''--header '' @ [squote] @ k @ '': '' @ v @ [squote]" and t: "t = rest"
    by (simp_all add: ms_reHeader del: ms.simps)
  from header_at_Some [OF h] have "drop d s = w @ t" unfolding w t by simp
  then have "length (drop d s) = length w + length t" by simp
  moreover have "w \<noteq> []" unfolding w by simp
  ultimately show ?thesis by (cases w) auto
qed

lemma all_matches_reHeader:
  "length s < n \<Longrightarrow> map (\<lambda>(j, m). entry_of m) (all_matches reHeader n pos s) = header_scan s"
proof (induction n arbitrary: pos s)
  case 0
  then show ?case by simp
next
  case (Suc n)
  show ?case
  proof (cases "find_from reHeader pos s")
    case None
    then show ?thesis using header_scan_find [of s pos] by simp
  next
    case (Some x)
    obtain j w gs t where x: "x = (j, w, gs, t)" by (cases x) auto
    from find_from_reHeader_shorter [OF Some [unfolded x]] Suc.prems
    have w: "w \<noteq> []" and t: "length t < n" by auto
    from Suc.IH [OF t, of "j + length w"] Some x w header_scan_find [of s pos]
    show ?thesis by simp
  qed
qed

lemma extractHeaders_scan: "extractHeaders s = header_scan s"
  using all_matches_reHeader [of s "length s + 1" 0]
  by (simp add: extractHeaders_def FindAllStringSubmatch_def FindAllStringSubmatchIndex_def
      entry_of_def case_prod_unfold comp_def)

lemma Contains_Nil [simp]: "strings_Contains s []"
  by (cases s) auto


lemma one_pass_prefix:
  "prefix sub (normalize_one_pass s) \<Longrightarrow> CHR '' '' \<notin> set sub \<Longrightarrow> prefix sub s"
proof (induction s arbitrary: sub rule: normalize_one_pass.induct)
  case 1
  then show ?case by simp
next
  case (2 c)
  then show ?case
    by (cases sub) (auto simp: newline_to_space_def split: if_splits)
next
  case (3 c d cs)
  show ?case
  proof (cases sub)
    case Nil
    then show ?thesis by simp
  next
    case (Cons x sub')
    with "3.prems" have nc: "\<not> (c = backslash \<and> d = newline)" by auto
    with "3.prems" Cons have x: "x = newline_to_space c" "prefix sub' (normalize_one_pass (d # cs))"
      by auto
    with "3.prems"(2) Cons have "x = c" by (auto simp: newline_to_space_def split: if_splits)
    moreover from "3.IH"(2) [OF nc x(2)] "3.prems"(2) Cons have "prefix sub' (d # cs)" by simp
    ultimately show ?thesis using Cons by simp
  qed
qed

lemma one_pass_Contains:
  "strings_Contains (normalize_one_pass s) sub \<Longrightarrow> CHR '' '' \<notin> set sub \<Longrightarrow> strings_Contains s sub"
proof (induction s rule: normalize_one_pass.induct)
  case 1
  then show ?case by simp
next
  case (2 c)
  then show ?case using one_pass_prefix [of sub "[c]"] by auto
next
  case (3 c d cs)
  show ?case
  proof (cases "prefix sub (normalize_one_pass (c # d # cs))")
    case True
    from one_pass_prefix [OF this "3.prems"(2)] show ?thesis by simp
  next
    case False
    show ?thesis
    proof (cases "c = backslash \<and> d = newline")
      case True
      with False "3.prems" have "strings_Contains (normalize_one_pass cs) sub" by auto
      from "3.IH"(1) [OF True this "3.prems"(2)] show ?thesis by simp
    next
      case nc: False
      with False "3.prems" have "strings_Contains (normalize_one_pass (d # cs)) sub" by auto
      from "3.IH"(2) [OF nc this "3.prems"(2)] show ?thesis by simp
    qed
  qed
qed

lemma normalize_Contains:
  "strings_Contains (normalize s) sub \<Longrightarrow> CHR '' '' \<notin> set sub \<Longrightarrow> strings_Contains s sub"
proof -
  assume a: "strings_Contains (normalize s) sub" "CHR '' '' \<notin> set sub"
  have "normalize s = normalize_one_pass s"
    by (simp add: normalize_def Replace_continuations Replace_newlines one_pass_eq)
  with a one_pass_Contains [of s sub] show ?thesis by simp
qed

lemma header_scan_no_flag: "\<not> strings_Contains s ''--header'' \<Longrightarrow> header_scan s = []"
proof (induction s rule: header_scan.induct)
  case 1
  show ?case by simp
next
  case (2 c cs)
  from "2.prems" have np: "\<not> prefix ''--header'' (c # cs)" and nc: "\<not> strings_Contains cs ''--header''"
    by auto
  have "\<not> prefix (''--header '' @ [squote]) (c # cs)"
  proof
    assume "prefix (''--header '' @ [squote]) (c # cs)"
    moreover have "prefix ''--header'' (''--header '' @ [squote])" by simp
    ultimately have "prefix ''--header'' (c # cs)" by (rule prefix_order.trans [rotated])
    with np show False by blast
  qed
  then have "header_at (c # cs) = None" unfolding header_at_def by (rule if_not_P)
  with "2.IH"(1) nc show ?case by simp
qed

lemma setPath_Scheme: "setPath u p = Some u' \<Longrightarrow> Scheme u' = Scheme u"
  by (auto simp: setPath_def split: option.splits)

lemma setFragment_Scheme: "setFragment u f = Some u' \<Longrightarrow> Scheme u' = Scheme u"
  by (auto simp: setFragment_def split: option.splits)

lemma getScheme_http: "getScheme (''http://'' @ t) = Some (''http'', ''//'' @ t)"
  by (simp add: getScheme_def is_alpha_def is_digit_def)

lemma parse_http:
  assumes "parse (''http://'' @ t) = Some u"
  shows "Scheme u = ''http''"
proof -
  have l: "map to_lower ''http'' = ''http''" by (simp add: to_lower_def)
  from assms show ?thesis
    unfolding parse_def getScheme_http
    by (auto simp: Let_def to_lower_def empty_URL_def split: if_splits option.splits
        dest!: setPath_Scheme)
qed

lemma cut_byte_http:
  "\<exists>t'. fst (cut_byte (''http://'' @ t) (CHR ''#'')) = ''http://'' @ t'"
  by (auto simp: cut_byte_def Let_def)

lemma url_Parse_http:
  assumes "url_Parse (''http://'' @ t) = Some u"
  shows "Scheme u = ''http''"
proof -
  obtain t' where c: "fst (cut_byte (''http://'' @ t) (CHR ''#'')) = ''http://'' @ t'"
    using cut_byte_http by blast
  obtain a frag b where e: "cut_byte (''http://'' @ t) (CHR ''#'') = (a, frag, b)"
    by (cases "cut_byte (''http://'' @ t) (CHR ''#'')") auto
  with c have a: "a = ''http://'' @ t'" by simp
  from assms e a obtain u0 where p: "parse (''http://'' @ t') = Some u0"
    and u: "u = u0 \<or> setFragment u0 frag = Some u"
    by (auto simp: url_Parse_def split: option.splits if_splits)
  from parse_http [OF p] u show ?thesis by (auto dest: setFragment_Scheme)
qed

lemma withDefaultScheme_http:
  "\<not> strings_Contains tok ''://'' \<Longrightarrow> url_Parse (withDefaultScheme tok) = Some u \<Longrightarrow> Scheme u = ''http''"
  using url_Parse_http [of tok u] by (auto simp: withDefaultScheme_def)




lemma split_byte_no_sep: "sep \<notin> set s \<Longrightarrow> split_byte sep s = [s]"
  by (induction s) auto

lemma path_segments_single:
  "seg \<noteq> [] \<Longrightarrow> CHR ''/'' \<notin> set seg \<Longrightarrow>
     [strings_TrimLeft (CHR ''/'' # seg) ''/''] = path_segments_spec (CHR ''/'' # seg)"
  by (cases seg) (auto simp: strings_TrimLeft_def path_segments_spec_def split_byte_no_sep)

lemma main_go_record:
  assumes "parseCurlCommand_main_go order c = Inr r"
  shows "\<exists>u. url_Parse (withDefaultScheme
                  (snd (extractMethodAndUrl reMethodAndUrl_main_go (normalize c)))) = Some u
           \<and> http_method (request r) = fst (extractMethodAndUrl reMethodAndUrl_main_go (normalize c))
           \<and> protocol (url (request r)) = Scheme u
           \<and> host (url (request r)) = [Hostname u]
           \<and> port (url (request r)) = Port u
           \<and> path (url (request r)) = [strings_TrimLeft (Path u) ''/'']
           \<and> name r = ''Generated from Curl''"
  using assms
  by (auto simp: parseCurlCommand_main_go_def Let_def split: option.splits)

lemma part_000_record:
  assumes "parseCurlCommand_part_000 c = Some r"
  shows "\<exists>u. url_Parse (withDefaultScheme
                  (snd (extractMethodAndUrl reMethodAndUrl_part_000 (normalize c)))) = Some u
           \<and> Hostname u \<noteq> []
           \<and> http_method (request r) = fst (extractMethodAndUrl reMethodAndUrl_part_000 (normalize c))
           \<and> protocol (url (request r)) = Scheme u
           \<and> host (url (request r)) = [Hostname u]
           \<and> port (url (request r)) = Port u
           \<and> path (url (request r)) = [strings_TrimLeft (Path u) ''/'']
           \<and> mode (body (request r)) = ''raw''"
  using assms
  by (auto simp: parseCurlCommand_part_000_def Let_def split: option.splits if_splits)

lemma greedy_hd: "\<exists>rest. greedy p s = (takeWhile p s, dropWhile p s) # rest"
proof (induction s)
  case Nil
  show ?case by simp
next
  case (Cons c cs)
  then obtain rest where "greedy p cs = (takeWhile p cs, dropWhile p cs) # rest" by blast
  then show ?case by simp
qed

lemma takeWhile_run:
  assumes "list_all p w" "t = [] \<or> \<not> p (hd t)"
  shows "takeWhile p (w @ t) = w \<and> dropWhile p (w @ t) = t"
proof -
  from assms(2) have "takeWhile p t = [] \<and> dropWhile p t = t" by (cases t) auto
  with assms(1) show ?thesis by (induction w) auto
qed

lemma ms_Plus_run:
  assumes "w \<noteq> []" "list_all (in_cls c) w" "t = [] \<or> \<not> in_cls c (hd t)"
  shows "\<exists>rest. ms (Plus c) (w @ t) = (w, [], t) # rest"
proof -
  from greedy_hd [of "in_cls c" "w @ t"] takeWhile_run [OF assms(2,3)]
  obtain rest where "greedy (in_cls c) (w @ t) = (w, t) # rest" by auto
  with assms(1) show ?thesis by simp
qed

lemma ms_Star_run:
  assumes "list_all (in_cls c) w" "t = [] \<or> \<not> in_cls c (hd t)"
  shows "\<exists>rest. ms (Star c) (w @ t) = (w, [], t) # rest"
proof -
  from greedy_hd [of "in_cls c" "w @ t"] takeWhile_run [OF assms]
  obtain rest where "greedy (in_cls c) (w @ t) = (w, t) # rest" by auto
  then show ?thesis by simp
qed

lemma ms_Cap_hd: "ms r s = (w, g, t) # rest \<Longrightarrow> \<exists>rest'. ms (Cap r) s = (w, w # g, t) # rest'"
  by simp

lemma ms_Lit_here: "ms (Lit l) (l @ t) = [(l, [], t)]"
  by simp

lemma ms_Cat_hd:
  assumes "ms a s = (w1, g1, t1) # ra" "ms b t1 = (w2, g2, t2) # rb"
  shows "\<exists>rest. ms (Cat a b) s = (w1 @ w2, g1 @ g2, t2) # rest"
  using assms by simp

lemma ms_Cat_skip:
  assumes "ms a s = l1 @ (w1, g1, t1) # l2"
    and "\<And>w g t. (w, g, t) \<in> set l1 \<Longrightarrow> ms b t = []"
    and "ms b t1 = (w2, g2, t2) # rb"
  shows "\<exists>rest. ms (Cat a b) s = (w1 @ w2, g1 @ g2, t2) # rest"
proof -
  have c: "concat (map (\<lambda>(w1, g1, t1). map (\<lambda>(w2, g2, t2). (w1 @ w2, g1 @ g2, t2)) (ms b t1)) l1) = []"
    using assms(2) by (induction l1) auto
  show ?thesis
    unfolding ms.simps assms(1) map_append concat_append c
    by (simp add: assms(3))
qed

lemma find_from_first:
  assumes "\<forall>i<d. ms r (drop i s) = []" "d \<le> length s" "ms r (drop d s) = (w, g, t) # rest"
  shows "find_from r k s = Some (k + d, w, g, t)"
  using assms
proof (induction s arbitrary: d k)
  case Nil
  then show ?case by simp
next
  case (Cons c cs)
  show ?case
  proof (cases d)
    case 0
    with Cons.prems(3) show ?thesis by simp
  next
    case (Suc d')
    with Cons.prems(1) have here: "ms r (c # cs) = []" by (metis drop0 zero_less_Suc)
    have "\<forall>i<d'. ms r (drop i cs) = []"
    proof (intro allI impI)
      fix i assume "i < d'"
      with Cons.prems(1) Suc have "ms r (drop (Suc i) (c # cs)) = []" by (metis Suc_less_eq)
      then show "ms r (drop i cs) = []" by simp
    qed
    moreover from Cons.prems(2,3) Suc have "d' \<le> length cs" "ms r (drop d' cs) = (w, g, t) # rest"
      by simp_all
    ultimately have "find_from r (Suc k) cs = Some (Suc k + d', w, g, t)" by (rule Cons.IH)
    with here Suc show ?thesis by simp
  qed
qed

lemma FindStringSubmatch_first:
  assumes "\<forall>i<length pre. \<not> matches_at r (pre @ s) i" "ms r s = (w, g, t) # rest"
  shows "FindStringSubmatch r (pre @ s) = w # g"
proof -
  from assms(1) have "\<forall>i<length pre. ms r (drop i (pre @ s)) = []" by (simp add: matches_at_def)
  moreover have "length pre \<le> length (pre @ s)" by simp
  moreover from assms(2) have "ms r (drop (length pre) (pre @ s)) = (w, g, t) # rest" by simp
  ultimately have "find_from r 0 (pre @ s) = Some (0 + length pre, w, g, t)" by (rule find_from_first)
  then show ?thesis by (simp add: FindStringSubmatch_def)
qed

lemma in_cls_Word_not_Space: "in_cls Word c \<Longrightarrow> \<not> in_cls Space c"
  by (auto simp: Let_def)

lemma ms_reMethodAndUrl_main_go:
  assumes "M \<noteq> []" "list_all (in_cls Word) M" "squote \<notin> set U"
  shows "\<exists>rest. ms reMethodAndUrl_main_go (''--request '' @ M @ '' '' @ quoted U @ post)
           = (''--request '' @ M @ '' '' @ quoted U, [M, U], post) # rest"
proof -
  have 5: "ms (Lit [squote]) ([squote] @ post) = ([squote], [], post) # []" by simp
  have "list_all (in_cls (Not squote)) U" using assms(3) by (induction U) auto
  then obtain r4 where "ms (Star (Not squote)) (U @ [squote] @ post) = (U, [], [squote] @ post) # r4"
    using ms_Star_run [of "Not squote" U "[squote] @ post"] by auto
  then obtain r4' where 4: "ms (Cap (Star (Not squote))) (U @ [squote] @ post)
      = (U, [U], [squote] @ post) # r4'"
    using ms_Cap_hd by blast
  from ms_Cat_hd [OF 4 5] obtain r45 where 45:
    "ms (Cat (Cap (Star (Not squote))) (Lit [squote])) (U @ [squote] @ post)
      = (U @ [squote], [U], post) # r45" by auto
  have 3: "ms (Lit ('' '' @ [squote])) (('' '' @ [squote]) @ U @ [squote] @ post)
      = ('' '' @ [squote], [], U @ [squote] @ post) # []" by (rule ms_Lit_here)
  from ms_Cat_hd [OF 3 45] obtain r35 where 35:
    "ms (Cat (Lit ('' '' @ [squote])) (Cat (Cap (Star (Not squote))) (Lit [squote])))
        (('' '' @ [squote]) @ U @ [squote] @ post)
      = (('' '' @ [squote]) @ U @ [squote], [U], post) # r35" by auto
  have "\<not> in_cls Word (hd (('' '' @ [squote]) @ U @ [squote] @ post))" by simp
  with assms(1,2) obtain r2 where
    "ms (Plus Word) (M @ ('' '' @ [squote]) @ U @ [squote] @ post)
      = (M, [], ('' '' @ [squote]) @ U @ [squote] @ post) # r2"
    using ms_Plus_run [of M Word "('' '' @ [squote]) @ U @ [squote] @ post"] by blast
  then obtain r2' where 2: "ms (Cap (Plus Word)) (M @ ('' '' @ [squote]) @ U @ [squote] @ post)
      = (M, [M], ('' '' @ [squote]) @ U @ [squote] @ post) # r2'"
    using ms_Cap_hd by blast
  from ms_Cat_hd [OF 2 35] obtain r25 where 25:
    "ms (Cat (Cap (Plus Word)) (Cat (Lit ('' '' @ [squote])) (Cat (Cap (Star (Not squote))) (Lit [squote]))))
        (M @ ('' '' @ [squote]) @ U @ [squote] @ post)
      = (M @ ('' '' @ [squote]) @ U @ [squote], [M] @ [U], post) # r25" by auto
  have 1: "ms (Lit ''--request '') (''--request '' @ M @ ('' '' @ [squote]) @ U @ [squote] @ post)
      = (''--request '', [], M @ ('' '' @ [squote]) @ U @ [squote] @ post) # []"
    by (rule ms_Lit_here)
  from ms_Cat_hd [OF 1 25] obtain r15 where
    "ms reMethodAndUrl_main_go (''--request '' @ M @ ('' '' @ [squote]) @ U @ [squote] @ post)
      = (''--request '' @ M @ ('' '' @ [squote]) @ U @ [squote], [] @ [M] @ [U], post) # r15"
    unfolding reMethodAndUrl_main_go_def by auto
  then show ?thesis by (simp add: quoted_def)
qed

lemma ms_reMethodAndUrl_part_000:
  assumes w1: "w1 \<noteq> []" "list_all (in_cls Space) w1"
    and M: "M \<noteq> []" "list_all (in_cls Word) M"
    and w2: "w2 \<noteq> []" "list_all (in_cls Space) w2"
    and w3: "w3 \<noteq> []" "list_all (in_cls Space) w3"
    and tok: "tok \<noteq> []" "CHR '' '' \<notin> set tok" "\<not> in_cls Space (hd tok)"
    and post: "post = [] \<or> hd post = CHR '' ''"
  shows "\<exists>rest. ms reMethodAndUrl_part_000
                  (''--request'' @ w1 @ M @ w2 @ ''--url'' @ w3 @ tok @ post)
           = (''--request'' @ w1 @ M @ w2 @ ''--url'' @ w3 @ tok, [M, tok], post) # rest"
proof -
  have "list_all (in_cls (Not CHR '' '')) tok" using tok(2) by (induction tok) auto
  moreover from post have "post = [] \<or> \<not> in_cls (Not CHR '' '') (hd post)" by auto
  ultimately obtain r7 where
    "ms (Plus (Not CHR '' '')) (tok @ post) = (tok, [], post) # r7"
    using ms_Plus_run [OF tok(1)] by blast
  then obtain r7' where 7: "ms (Cap (Plus (Not CHR '' ''))) (tok @ post) = (tok, [tok], post) # r7'"
    using ms_Cap_hd by blast
  from tok(1,3) have "tok @ post = [] \<or> \<not> in_cls Space (hd (tok @ post))" by simp
  from ms_Plus_run [OF w3 this] obtain r6 where
    6: "ms (Plus Space) (w3 @ tok @ post) = (w3, [], tok @ post) # r6" by blast
  from ms_Cat_hd [OF 6 7] obtain r67 where 67:
    "ms (Cat (Plus Space) (Cap (Plus (Not CHR '' '')))) (w3 @ tok @ post)
       = (w3 @ tok, [] @ [tok], post) # r67" by blast
  have 5: "ms (Lit ''--url'') (''--url'' @ w3 @ tok @ post) = (''--url'', [], w3 @ tok @ post) # []"
    by (rule ms_Lit_here)
  from ms_Cat_hd [OF 5 67] obtain r57 where 57:
    "ms (Cat (Lit ''--url'') (Cat (Plus Space) (Cap (Plus (Not CHR '' '')))))
        (''--url'' @ w3 @ tok @ post)
       = (''--url'' @ w3 @ tok, [] @ [] @ [tok], post) # r57" by blast
  have "''--url'' @ w3 @ tok @ post = [] \<or> \<not> in_cls Space (hd (''--url'' @ w3 @ tok @ post))"
    by simp
  from ms_Plus_run [OF w2 this] obtain r4 where
    4: "ms (Plus Space) (w2 @ ''--url'' @ w3 @ tok @ post)
        = (w2, [], ''--url'' @ w3 @ tok @ post) # r4" by blast
  from ms_Cat_hd [OF 4 57] obtain r47 where 47:
    "ms (Cat (Plus Space) (Cat (Lit ''--url'') (Cat (Plus Space) (Cap (Plus (Not CHR '' ''))))))
        (w2 @ ''--url'' @ w3 @ tok @ post)
       = (w2 @ ''--url'' @ w3 @ tok, [] @ [] @ [] @ [tok], post) # r47" by blast
  from w2 have "\<not> in_cls Word (hd w2)"
    using in_cls_Word_not_Space [of "hd w2"] by (cases w2) auto
  with w2(1) have "w2 @ ''--url'' @ w3 @ tok @ post = []
      \<or> \<not> in_cls Word (hd (w2 @ ''--url'' @ w3 @ tok @ post))" by simp
  from ms_Plus_run [OF M this] obtain r3 where
    "ms (Plus Word) (M @ w2 @ ''--url'' @ w3 @ tok @ post)
       = (M, [], w2 @ ''--url'' @ w3 @ tok @ post) # r3" by blast
  then obtain r3' where 3: "ms (Cap (Plus Word)) (M @ w2 @ ''--url'' @ w3 @ tok @ post)
       = (M, [M], w2 @ ''--url'' @ w3 @ tok @ post) # r3'"
    using ms_Cap_hd by blast
  from ms_Cat_hd [OF 3 47] obtain r37 where 37:
    "ms (Cat (Cap (Plus Word))
          (Cat (Plus Space) (Cat (Lit ''--url'') (Cat (Plus Space) (Cap (Plus (Not CHR '' '')))))))
        (M @ w2 @ ''--url'' @ w3 @ tok @ post)
       = (M @ w2 @ ''--url'' @ w3 @ tok, [M] @ [] @ [] @ [] @ [tok], post) # r37" by blast
  from M have "\<not> in_cls Space (hd M)"
    using in_cls_Word_not_Space [of "hd M"] by (cases M) auto
  with M(1) have "M @ w2 @ ''--url'' @ w3 @ tok @ post = []
      \<or> \<not> in_cls Space (hd (M @ w2 @ ''--url'' @ w3 @ tok @ post))" by simp
  from ms_Plus_run [OF w1 this] obtain r2 where
    2: "ms (Plus Space) (w1 @ M @ w2 @ ''--url'' @ w3 @ tok @ post)
       = (w1, [], M @ w2 @ ''--url'' @ w3 @ tok @ post) # r2" by blast
  from ms_Cat_hd [OF 2 37] obtain r27 where 27:
    "ms (Cat (Plus Space) (Cat (Cap (Plus Word))
          (Cat (Plus Space) (Cat (Lit ''--url'') (Cat (Plus Space) (Cap (Plus (Not CHR '' ''))))))))
        (w1 @ M @ w2 @ ''--url'' @ w3 @ tok @ post)
       = (w1 @ M @ w2 @ ''--url'' @ w3 @ tok, [] @ [M] @ [] @ [] @ [] @ [tok], post) # r27" by blast
  have 1: "ms (Lit ''--request'') (''--request'' @ w1 @ M @ w2 @ ''--url'' @ w3 @ tok @ post)
       = (''--request'', [], w1 @ M @ w2 @ ''--url'' @ w3 @ tok @ post) # []"
    by (rule ms_Lit_here)
  from ms_Cat_hd [OF 1 27] obtain r17 where
    "ms reMethodAndUrl_part_000 (''--request'' @ w1 @ M @ w2 @ ''--url'' @ w3 @ tok @ post)
       = (''--request'' @ w1 @ M @ w2 @ ''--url'' @ w3 @ tok,
          [] @ [] @ [M] @ [] @ [] @ [] @ [tok], post) # r17"
    unfolding reMethodAndUrl_part_000_def by blast
  then show ?thesis by simp
qed

lemma extractMethodAndUrl_first:
  assumes "\<forall>i<length pre. \<not> matches_at r (pre @ s) i" "ms r s = (w, [m, u], t) # rest"
  shows "extractMethodAndUrl r (pre @ s) = (m, u)"
  using FindStringSubmatch_first [OF assms] by (simp add: extractMethodAndUrl_def)


lemma normalize_no_newline: "newline \<notin> set (normalize s)"
proof -
  have "newline \<notin> set (map newline_to_space t)" for t
    by (induction t) (auto simp: newline_to_space_def newline_def)
  then show ?thesis by (simp add: normalize_def Replace_continuations Replace_newlines)
qed

lemma rev_greedy_Cons:
  "rev (greedy p (c # cs)) =
     (if p c then ([], c # cs) # map (\<lambda>(w, r). (c # w, r)) (rev (greedy p cs)) else [([], c # cs)])"
  by (simp add: rev_map)


lemma ms_lazy_close:
  "ms (Cat (LazyStar Dot) (Lit ''}'')) s = concat (map close_brace (rev (greedy (in_cls Dot) s)))"
proof -
  have "(\<lambda>(w1, g1, t1). map (\<lambda>(w2, g2, t2). (w1 @ w2, g1 @ g2, t2)) (ms (Lit ''}'') t1))
          \<circ> (\<lambda>(w, t). (w, [], t)) = close_brace"
    by (rule ext) (simp add: close_brace_def case_prod_unfold)
  then show ?thesis by (simp del: ms.simps(1))
qed

lemma concat_close_brace_Cons:
  "concat (map close_brace (map (\<lambda>(w, r). (c # w, r)) l))
     = map (\<lambda>(w, g, t). (c # w, g, t)) (concat (map close_brace l))"
  by (induction l) (auto simp: close_brace_def)

lemma lazy_candidates:
  assumes "newline \<notin> set x"
  shows "\<exists>l1 l2. concat (map close_brace (rev (greedy (in_cls Dot) (x @ ''}'' @ rest))))
                  = l1 @ (x @ ''}'', [], rest) # l2
               \<and> (\<forall>(w, g, t) \<in> set l1. \<exists>x2. set x2 \<subseteq> set x \<and> t = x2 @ ''}'' @ rest)"
  using assms
proof (induction x)
  case Nil
  let ?more = "concat (map close_brace
            (map (\<lambda>(w, r). (CHR ''}'' # w, r)) (rev (greedy (in_cls Dot) rest))))"
  have "in_cls Dot CHR ''}''" by (simp add: newline_def)
  then have "rev (greedy (in_cls Dot) (CHR ''}'' # rest))
      = ([], CHR ''}'' # rest) # map (\<lambda>(w, r). (CHR ''}'' # w, r)) (rev (greedy (in_cls Dot) rest))"
    by (simp only: rev_greedy_Cons if_True)
  then have e: "concat (map close_brace (rev (greedy (in_cls Dot) ([] @ ''}'' @ rest))))
      = [] @ ([] @ ''}'', [], rest) # ?more"
    by (simp add: close_brace_def del: greedy.simps)
  have "\<forall>(w, g, t) \<in> set ([] :: (string \<times> string list \<times> string) list).
          \<exists>x2. set x2 \<subseteq> set [] \<and> t = x2 @ ''}'' @ rest" by simp
  with e show ?case by blast
next
  case (Cons c cs)
  then have c: "in_cls Dot c" and cs: "newline \<notin> set cs" by auto
  from Cons.IH [OF cs] obtain l1 l2 where
    ih: "concat (map close_brace (rev (greedy (in_cls Dot) (cs @ ''}'' @ rest))))
          = l1 @ (cs @ ''}'', [], rest) # l2"
    and l1: "\<forall>(w, g, t) \<in> set l1. \<exists>x2. set x2 \<subseteq> set cs \<and> t = x2 @ ''}'' @ rest"
    by blast
  let ?prep = "\<lambda>(w, g, t). (c # w, g, t)"
  let ?f0 = "close_brace ([], c # cs @ ''}'' @ rest)"
  from c have "rev (greedy (in_cls Dot) (c # cs @ ''}'' @ rest))
      = ([], c # cs @ ''}'' @ rest)
        # map (\<lambda>(w, r). (c # w, r)) (rev (greedy (in_cls Dot) (cs @ ''}'' @ rest)))"
    by (simp only: rev_greedy_Cons if_True)
  then have "concat (map close_brace (rev (greedy (in_cls Dot) (c # cs @ ''}'' @ rest))))
      = ?f0 @ map ?prep (l1 @ (cs @ ''}'', [], rest) # l2)"
    by (simp only: list.map concat.simps concat_close_brace_Cons ih)
  then have whole: "concat (map close_brace (rev (greedy (in_cls Dot) ((c # cs) @ ''}'' @ rest))))
      = (?f0 @ map ?prep l1) @ ((c # cs) @ ''}'', [], rest) # map ?prep l2"
    by simp
  have f0: "\<forall>(w, g, t) \<in> set ?f0. \<exists>x2. set x2 \<subseteq> set (c # cs) \<and> t = x2 @ ''}'' @ rest"
  proof (cases "c = CHR ''}''")
    case True
    have "set cs \<subseteq> set (c # cs) \<and> cs @ ''}'' @ rest = cs @ ''}'' @ rest" by auto
    then have "\<exists>x2. set x2 \<subseteq> set (c # cs) \<and> cs @ ''}'' @ rest = x2 @ ''}'' @ rest" by (rule exI)
    with True show ?thesis by (simp add: close_brace_def)
  next
    case False
    then show ?thesis by (simp add: close_brace_def)
  qed
  have p: "\<forall>(w, g, t) \<in> set (map ?prep l1). \<exists>x2. set x2 \<subseteq> set (c # cs) \<and> t = x2 @ ''}'' @ rest"
  proof (clarsimp)
    fix w g t assume "(w, g, t) \<in> set l1"
    with l1 obtain x2 where "set x2 \<subseteq> set cs" "t = x2 @ ''}'' @ rest" by fastforce
    then have "set x2 \<subseteq> insert c (set cs) \<and> t = x2 @ CHR ''}'' # rest" by auto
    then show "\<exists>x2. set x2 \<subseteq> insert c (set cs) \<and> t = x2 @ CHR ''}'' # rest" by (rule exI)
  qed
  from f0 p have "\<forall>(w, g, t) \<in> set (?f0 @ map ?prep l1).
      \<exists>x2. set x2 \<subseteq> set (c # cs) \<and> t = x2 @ ''}'' @ rest"
    unfolding set_append by blast
  with whole show ?case by blast
qed

lemma ms_data_pattern:
  assumes "newline \<notin> set x" "squote \<notin> set x"
  shows "\<exists>more. ms (Cat (Lit P)
                       (Cat (Cap (Cat (Lit ''{'') (Cat (LazyStar Dot) (Lit ''}''))))
                            (Lit [squote])))
                   (P @ ''{'' @ x @ ''}'' @ [squote] @ post)
           = (P @ ''{'' @ x @ ''}'' @ [squote], [''{'' @ x @ ''}''], post) # more"
proof -
  let ?rest = "[squote] @ post"
  from lazy_candidates [OF assms(1), of ?rest] obtain l1 l2 where
    l: "ms (Cat (LazyStar Dot) (Lit ''}'')) (x @ ''}'' @ ?rest) = l1 @ (x @ ''}'', [], ?rest) # l2"
    and l1: "\<forall>(w, g, t) \<in> set l1. \<exists>x2. set x2 \<subseteq> set x \<and> t = x2 @ ''}'' @ ?rest"
    unfolding ms_lazy_close by blast
  let ?f = "\<lambda>(w, g, t). (''{'' @ w, (''{'' @ w) # g, t)"
  have "ms (Cap (Cat (Lit ''{'') (Cat (LazyStar Dot) (Lit ''}'')))) (''{'' @ x @ ''}'' @ ?rest)
        = map ?f (ms (Cat (LazyStar Dot) (Lit ''}'')) (x @ ''}'' @ ?rest))"
    unfolding ms.simps(5) ms_Cat_Lit [of "''{''"]
    by (simp add: case_prod_unfold del: ms.simps)
  then have b: "ms (Cap (Cat (Lit ''{'') (Cat (LazyStar Dot) (Lit ''}'')))) (''{'' @ x @ ''}'' @ ?rest)
        = map ?f l1 @ (''{'' @ x @ ''}'', [''{'' @ x @ ''}''], ?rest) # map ?f l2"
    unfolding l by simp
  have skip: "ms (Lit [squote]) t = []" if "(w, g, t) \<in> set (map ?f l1)" for w g t
  proof -
    from that l1 obtain x2 where x2: "set x2 \<subseteq> set x" "t = x2 @ ''}'' @ ?rest" by fastforce
    with assms(2) have "hd t \<noteq> squote" by (cases x2) (auto simp: squote_def)
    moreover from x2 have "t \<noteq> []" by simp
    ultimately show ?thesis by (rule ms_Lit_hd [rotated])
  qed
  have q: "ms (Lit [squote]) ?rest = ([squote], [], post) # []" by simp
  from ms_Cat_skip [OF b _ q] skip obtain r2 where 2:
    "ms (Cat (Cap (Cat (Lit ''{'') (Cat (LazyStar Dot) (Lit ''}'')))) (Lit [squote]))
        (''{'' @ x @ ''}'' @ ?rest)
      = ((''{'' @ x @ ''}'') @ [squote], [''{'' @ x @ ''}''] @ [], post) # r2"
    by blast
  have 1: "ms (Lit P) (P @ ''{'' @ x @ ''}'' @ ?rest) = (P, [], ''{'' @ x @ ''}'' @ ?rest) # []"
    by (rule ms_Lit_here)
  from ms_Cat_hd [OF 1 2] obtain r1 where
    "ms (Cat (Lit P)
             (Cat (Cap (Cat (Lit ''{'') (Cat (LazyStar Dot) (Lit ''}'')))) (Lit [squote])))
        (P @ ''{'' @ x @ ''}'' @ ?rest)
      = (P @ (''{'' @ x @ ''}'') @ [squote], [] @ [''{'' @ x @ ''}''] @ [], post) # r1"
    by blast
  then show ?thesis by (simp del: ms.simps)
qed

lemma find_from_nowhere:
  "\<forall>d\<le>length s. ms r (drop d s) = [] \<Longrightarrow> find_from r i s = None"
proof (induction s arbitrary: i)
  case Nil
  then show ?case by simp
next
  case (Cons c cs)
  from Cons.prems have here: "ms r (c # cs) = []" by (metis drop0 le0)
  have "\<forall>d\<le>length cs. ms r (drop d cs) = []"
  proof (intro allI impI)
    fix d assume "d \<le> length cs"
    with Cons.prems have "ms r (drop (Suc d) (c # cs)) = []" by (metis Suc_le_mono length_Cons)
    then show "ms r (drop d cs) = []" by simp
  qed
  from Cons.IH [OF this] here show ?case by simp
qed

lemma FindStringSubmatch_nowhere:
  "\<forall>i\<le>length s. \<not> matches_at r s i \<Longrightarrow> FindStringSubmatch r s = []"
  by (simp add: FindStringSubmatch_def matches_at_def find_from_nowhere)

lemma list_all_below: "list_all P [0..<n] \<Longrightarrow> \<forall>i<n. P i"
  by (simp add: list_all_iff)

lemma list_all_upto: "list_all P [0..<Suc n] \<Longrightarrow> \<forall>i\<le>n. P i"
  unfolding list_all_iff by (metis atLeastLessThan_iff le_imp_less_Suc set_upt zero_le)

lemma FindStringSubmatch_data:
  assumes "newline \<notin> set (pre @ P @ ''{'' @ x @ ''}'' @ [squote] @ post)" "squote \<notin> set x"
    and "\<forall>i<length pre. \<not> matches_at
           (Cat (Lit P) (Cat (Cap (Cat (Lit ''{'') (Cat (LazyStar Dot) (Lit ''}'')))) (Lit [squote])))
           (pre @ P @ ''{'' @ x @ ''}'' @ [squote] @ post) i"
  shows "FindStringSubmatch
           (Cat (Lit P) (Cat (Cap (Cat (Lit ''{'') (Cat (LazyStar Dot) (Lit ''}'')))) (Lit [squote])))
           (pre @ P @ ''{'' @ x @ ''}'' @ [squote] @ post)
         = [P @ ''{'' @ x @ ''}'' @ [squote], ''{'' @ x @ ''}'']"
proof -
  from assms(1) have "newline \<notin> set x" by simp
  from ms_data_pattern [OF this assms(2), of P post] obtain more where
    "ms (Cat (Lit P) (Cat (Cap (Cat (Lit ''{'') (Cat (LazyStar Dot) (Lit ''}'')))) (Lit [squote])))
        (P @ ''{'' @ x @ ''}'' @ [squote] @ post)
      = (P @ ''{'' @ x @ ''}'' @ [squote], [''{'' @ x @ ''}''], post) # more" by blast
  from FindStringSubmatch_first [OF assms(3) this] show ?thesis .
qed

lemma body_main_go:
  assumes "parseCurlCommand_main_go order c = Inr r"
  shows "body (request r) =
     \<lparr>mode = (if length (FindStringSubmatch reDataRaw (normalize c)) > 1 then ''raw'' else ''none''),
      body_raw = (if length (FindStringSubmatch reDataRaw (normalize c)) > 1
                  then FindStringSubmatch reDataRaw (normalize c) ! 1 else [])\<rparr>"
  using assms by (auto simp: parseCurlCommand_main_go_def Let_def split: option.splits)

lemma body_part_000:
  assumes "parseCurlCommand_part_000 c = Some r"
  shows "mode (body (request r)) = ''raw''"
    and "body_raw (body (request r)) =
     (if length (if length (FindStringSubmatch reData (normalize c)) = 0
                 then FindStringSubmatch reDataRaw (normalize c)
                 else FindStringSubmatch reData (normalize c)) > 1
      then (if length (FindStringSubmatch reData (normalize c)) = 0
            then FindStringSubmatch reDataRaw (normalize c)
            else FindStringSubmatch reData (normalize c)) ! 1
      else [])"
  using assms
  by (auto simp: parseCurlCommand_part_000_def Let_def split: option.splits if_splits)

lemma Find_reDataRaw_at:
  assumes "normalize c = pre @ ''--data-raw '' @ quoted (''{'' @ x @ ''}'') @ post"
    "squote \<notin> set x" "\<forall>i<length pre. \<not> matches_at reDataRaw (normalize c) i"
  shows "FindStringSubmatch reDataRaw (normalize c)
         = [''--data-raw '' @ quoted (''{'' @ x @ ''}''), ''{'' @ x @ ''}'']"
proof -
  have e: "pre @ ''--data-raw '' @ quoted (''{'' @ x @ ''}'') @ post
        = pre @ (''--data-raw '' @ [squote]) @ ''{'' @ x @ ''}'' @ [squote] @ post"
    by (simp add: quoted_def)
  have n: "newline \<notin> set (pre @ (''--data-raw '' @ [squote]) @ ''{'' @ x @ ''}'' @ [squote] @ post)"
    using normalize_no_newline [of c] unfolding assms(1) e .
  from assms(3) have l: "\<forall>i<length pre. \<not> matches_at
           (Cat (Lit (''--data-raw '' @ [squote]))
                (Cat (Cap (Cat (Lit ''{'') (Cat (LazyStar Dot) (Lit ''}'')))) (Lit [squote])))
           (pre @ (''--data-raw '' @ [squote]) @ ''{'' @ x @ ''}'' @ [squote] @ post) i"
    unfolding assms(1) e reDataRaw_def .
  from FindStringSubmatch_data [OF n assms(2) l] show ?thesis
    unfolding assms(1) e reDataRaw_def by (simp add: quoted_def del: ms.simps)
qed

lemma Find_reData_at:
  assumes "normalize c = pre @ ''--data '' @ quoted (''{'' @ x @ ''}'') @ post"
    "squote \<notin> set x" "\<forall>i<length pre. \<not> matches_at reData (normalize c) i"
  shows "FindStringSubmatch reData (normalize c)
         = [''--data '' @ quoted (''{'' @ x @ ''}''), ''{'' @ x @ ''}'']"
proof -
  have e: "pre @ ''--data '' @ quoted (''{'' @ x @ ''}'') @ post
        = pre @ (''--data '' @ [squote]) @ ''{'' @ x @ ''}'' @ [squote] @ post"
    by (simp add: quoted_def)
  have n: "newline \<notin> set (pre @ (''--data '' @ [squote]) @ ''{'' @ x @ ''}'' @ [squote] @ post)"
    using normalize_no_newline [of c] unfolding assms(1) e .
  from assms(3) have l: "\<forall>i<length pre. \<not> matches_at
           (Cat (Lit (''--data '' @ [squote]))
                (Cat (Cap (Cat (Lit ''{'') (Cat (LazyStar Dot) (Lit ''}'')))) (Lit [squote])))
           (pre @ (''--data '' @ [squote]) @ ''{'' @ x @ ''}'' @ [squote] @ post) i"
    unfolding assms(1) e reData_def .
  from FindStringSubmatch_data [OF n assms(2) l] show ?thesis
    unfolding assms(1) e reData_def by (simp add: quoted_def del: ms.simps)
qed

lemma header_at_well_formed:
  assumes "k \<noteq> []" "CHR '':'' \<notin> set k" "squote \<notin> set v"
  shows "header_at (''--header '' @ quoted (k @ '': '' @ v) @ rest) = Some (k, v, rest)"
proof -
  let ?a = "k @ '': '' @ v @ [squote] @ rest"
  have s: "''--header '' @ quoted (k @ '': '' @ v) @ rest = (''--header '' @ [squote]) @ ?a"
    by (simp add: quoted_def)
  have d: "drop (length (''--header '' @ [squote])) (''--header '' @ quoted (k @ '': '' @ v) @ rest) = ?a"
    unfolding s by (rule append_eq_conv_conj [THEN iffD1, THEN conjunct2, symmetric, OF refl])
  have p: "prefix (''--header '' @ [squote]) (''--header '' @ quoted (k @ '': '' @ v) @ rest)"
    unfolding s by (rule prefixI) (rule refl)
  from assms(2) have "list_all (\<lambda>c. c \<noteq> CHR '':'') k" by (induction k) auto
  from takeWhile_run [OF this, of "'': '' @ v @ [squote] @ rest"]
  have k: "takeWhile (\<lambda>c. c \<noteq> CHR '':'') ?a = k"
         "dropWhile (\<lambda>c. c \<noteq> CHR '':'') ?a = '': '' @ v @ [squote] @ rest" by simp_all
  from assms(3) have "list_all (\<lambda>c. c \<noteq> squote) v" by (induction v) auto
  from takeWhile_run [OF this, of "[squote] @ rest"]
  have v: "takeWhile (\<lambda>c. c \<noteq> squote) (v @ [squote] @ rest) = v"
         "dropWhile (\<lambda>c. c \<noteq> squote) (v @ [squote] @ rest) = [squote] @ rest" by simp_all
  have c: "drop (length '': '') ('': '' @ v @ [squote] @ rest) = v @ [squote] @ rest" by simp
  have pc: "prefix '': '' ('': '' @ v @ [squote] @ rest)" by simp
  show ?thesis
    unfolding header_at_def Let_def d k c v using p pc assms(1) by simp
qed

lemma header_scan_well_formed:
  assumes "k \<noteq> []" "CHR '':'' \<notin> set k" "squote \<notin> set v"
  shows "header_scan (''--header '' @ quoted (k @ '': '' @ v) @ rest)
         = \<lparr>header_key = k, header_value = v\<rparr> # header_scan rest"
proof -
  have "''--header '' @ quoted (k @ '': '' @ v) @ rest
        = CHR ''-'' # (''-header '' @ quoted (k @ '': '' @ v) @ rest)" by simp
  then show ?thesis
    using header_at_well_formed [OF assms, of rest]
    by (metis (no_types, lifting) header_scan.simps(2) option.simps(5) prod.simps(2))
qed

lemma greedy_set: "(w, t) \<in> set (greedy p s) \<Longrightarrow> s = w @ t \<and> list_all p w"
  by (induction s arbitrary: w t) (auto split: if_splits)

lemma ms_Lit_set: "(w, g, t) \<in> set (ms (Lit l) s) \<Longrightarrow> w = l \<and> g = [] \<and> s = l @ t"
  by (auto simp: prefix_def split: if_splits)

lemma ms_Plus_set:
  "(w, g, t) \<in> set (ms (Plus c) s) \<Longrightarrow> w \<noteq> [] \<and> list_all (in_cls c) w \<and> g = [] \<and> s = w @ t"
  by (auto dest: greedy_set)

lemma ms_Star_set:
  "(w, g, t) \<in> set (ms (Star c) s) \<Longrightarrow> list_all (in_cls c) w \<and> g = [] \<and> s = w @ t"
  by (auto dest: greedy_set)

lemma ms_Cap_set:
  "(w, g, t) \<in> set (ms (Cap r) s) \<Longrightarrow> \<exists>g'. g = w # g' \<and> (w, g', t) \<in> set (ms r s)"
  by auto

lemma ms_Cat_set:
  "(w, g, t) \<in> set (ms (Cat a b) s) \<Longrightarrow>
     \<exists>w1 g1 t1 w2 g2. (w1, g1, t1) \<in> set (ms a s) \<and> (w2, g2, t) \<in> set (ms b t1)
        \<and> w = w1 @ w2 \<and> g = g1 @ g2"
  by fastforce

lemma ms_main_go_shape:
  assumes "(w, g, t) \<in> set (ms reMethodAndUrl_main_go s)"
  shows "\<exists>M U. s = ''--request '' @ M @ '' '' @ quoted U @ t \<and> g = [M, U] \<and> M \<noteq> []
           \<and> list_all (in_cls Word) M \<and> squote \<notin> set U"
proof -
  from assms [unfolded reMethodAndUrl_main_go_def]
  obtain w1 g1 t1 w2 g2 where 1: "(w1, g1, t1) \<in> set (ms (Lit ''--request '') s)"
    and r2: "(w2, g2, t) \<in> set (ms (Cat (Cap (Plus Word)) (Cat (Lit ('' '' @ [squote]))
           (Cat (Cap (Star (Not squote))) (Lit [squote])))) t1)" and g: "g = g1 @ g2"
    by (blast dest: ms_Cat_set)
  from r2 obtain w3 g3 t3 w4 g4 where 2: "(w3, g3, t3) \<in> set (ms (Cap (Plus Word)) t1)"
    and r3: "(w4, g4, t) \<in> set (ms (Cat (Lit ('' '' @ [squote]))
           (Cat (Cap (Star (Not squote))) (Lit [squote]))) t3)" and g2: "g2 = g3 @ g4"
    by (blast dest: ms_Cat_set)
  from r3 obtain w5 g5 t5 w6 g6 where 3: "(w5, g5, t5) \<in> set (ms (Lit ('' '' @ [squote])) t3)"
    and r4: "(w6, g6, t) \<in> set (ms (Cat (Cap (Star (Not squote))) (Lit [squote])) t5)"
    and g4: "g4 = g5 @ g6"
    by (blast dest: ms_Cat_set)
  from r4 obtain w7 g7 t7 w8 g8 where 4: "(w7, g7, t7) \<in> set (ms (Cap (Star (Not squote))) t5)"
    and 5: "(w8, g8, t) \<in> set (ms (Lit [squote]) t7)" and g6: "g6 = g7 @ g8"
    by (blast dest: ms_Cat_set)
  from 1 have a: "g1 = []" "s = ''--request '' @ t1" by (auto dest: ms_Lit_set simp del: ms.simps)
  from 2 obtain g3' where "g3 = w3 # g3'" "(w3, g3', t3) \<in> set (ms (Plus Word) t1)"
    by (blast dest: ms_Cap_set)
  then have b: "g3 = [w3]" "w3 \<noteq> []" "list_all (in_cls Word) w3" "t1 = w3 @ t3"
    by (auto dest: ms_Plus_set simp del: ms.simps)
  from 3 have c: "g5 = []" "t3 = ('' '' @ [squote]) @ t5" by (auto dest: ms_Lit_set simp del: ms.simps)
  from 4 obtain g7' where "g7 = w7 # g7'" "(w7, g7', t7) \<in> set (ms (Star (Not squote)) t5)"
    by (blast dest: ms_Cap_set)
  then have d: "g7 = [w7]" "list_all (in_cls (Not squote)) w7" "t5 = w7 @ t7"
    by (auto dest: ms_Star_set simp del: ms.simps)
  from 5 have e: "g8 = []" "t7 = [squote] @ t" by (auto dest: ms_Lit_set simp del: ms.simps)
  from d(2) have "squote \<notin> set w7" by (induction w7) auto
  moreover have "s = ''--request '' @ w3 @ '' '' @ quoted w7 @ t"
    unfolding a b c d e by (simp add: quoted_def)
  moreover have "g = [w3, w7]" unfolding g g2 g4 g6 a b c d e by simp
  ultimately show ?thesis using b by blast
qed

lemma ms_part_000_shape:
  assumes "(w, g, t) \<in> set (ms reMethodAndUrl_part_000 s)"
  shows "\<exists>wa M wb wc tok. s = ''--request'' @ wa @ M @ wb @ ''--url'' @ wc @ tok @ t
           \<and> g = [M, tok]
           \<and> wa \<noteq> [] \<and> list_all (in_cls Space) wa \<and> M \<noteq> [] \<and> list_all (in_cls Word) M
           \<and> wb \<noteq> [] \<and> list_all (in_cls Space) wb \<and> wc \<noteq> [] \<and> list_all (in_cls Space) wc
           \<and> tok \<noteq> [] \<and> CHR '' '' \<notin> set tok"
proof -
  let ?r6 = "Cat (Plus Space) (Cap (Plus (Not CHR '' '')))"
  let ?r5 = "Cat (Lit ''--url'') ?r6"
  let ?r4 = "Cat (Plus Space) ?r5"
  let ?r3 = "Cat (Cap (Plus Word)) ?r4"
  let ?r2 = "Cat (Plus Space) ?r3"
  from assms [unfolded reMethodAndUrl_part_000_def]
  obtain w1 g1 t1 v1 h1 where 1: "(w1, g1, t1) \<in> set (ms (Lit ''--request'') s)"
    and r2: "(v1, h1, t) \<in> set (ms ?r2 t1)" and g: "g = g1 @ h1"
    by (blast dest: ms_Cat_set)
  from r2 obtain w2 g2 t2 v2 h2 where 2: "(w2, g2, t2) \<in> set (ms (Plus Space) t1)"
    and r3: "(v2, h2, t) \<in> set (ms ?r3 t2)" and h1: "h1 = g2 @ h2"
    by (blast dest: ms_Cat_set)
  from r3 obtain w3 g3 t3 v3 h3 where 3: "(w3, g3, t3) \<in> set (ms (Cap (Plus Word)) t2)"
    and r4: "(v3, h3, t) \<in> set (ms ?r4 t3)" and h2: "h2 = g3 @ h3"
    by (blast dest: ms_Cat_set)
  from r4 obtain w4 g4 t4 v4 h4 where 4: "(w4, g4, t4) \<in> set (ms (Plus Space) t3)"
    and r5: "(v4, h4, t) \<in> set (ms ?r5 t4)" and h3: "h3 = g4 @ h4"
    by (blast dest: ms_Cat_set)
  from r5 obtain w5 g5 t5 v5 h5 where 5: "(w5, g5, t5) \<in> set (ms (Lit ''--url'') t4)"
    and r6: "(v5, h5, t) \<in> set (ms ?r6 t5)" and h4: "h4 = g5 @ h5"
    by (blast dest: ms_Cat_set)
  from r6 obtain w6 g6 t6 w7 g7 where 6: "(w6, g6, t6) \<in> set (ms (Plus Space) t5)"
    and 7: "(w7, g7, t) \<in> set (ms (Cap (Plus (Not CHR '' ''))) t6)" and h5: "h5 = g6 @ g7"
    by (blast dest: ms_Cat_set)
  from 1 have a: "g1 = []" "s = ''--request'' @ t1" by (auto dest: ms_Lit_set simp del: ms.simps)
  from 2 have b: "g2 = []" "w2 \<noteq> []" "list_all (in_cls Space) w2" "t1 = w2 @ t2"
    by (auto dest: ms_Plus_set simp del: ms.simps)
  from 3 obtain g3' where "g3 = w3 # g3'" "(w3, g3', t3) \<in> set (ms (Plus Word) t2)"
    by (blast dest: ms_Cap_set)
  then have c: "g3 = [w3]" "w3 \<noteq> []" "list_all (in_cls Word) w3" "t2 = w3 @ t3"
    by (auto dest: ms_Plus_set simp del: ms.simps)
  from 4 have d: "g4 = []" "w4 \<noteq> []" "list_all (in_cls Space) w4" "t3 = w4 @ t4"
    by (auto dest: ms_Plus_set simp del: ms.simps)
  from 5 have e: "g5 = []" "t4 = ''--url'' @ t5" by (auto dest: ms_Lit_set simp del: ms.simps)
  from 6 have f: "g6 = []" "w6 \<noteq> []" "list_all (in_cls Space) w6" "t5 = w6 @ t6"
    by (auto dest: ms_Plus_set simp del: ms.simps)
  from 7 obtain g7' where "g7 = w7 # g7'" "(w7, g7', t) \<in> set (ms (Plus (Not CHR '' '')) t6)"
    by (blast dest: ms_Cap_set)
  then have h: "g7 = [w7]" "w7 \<noteq> []" "list_all (in_cls (Not CHR '' '')) w7" "t6 = w7 @ t"
    by (auto dest: ms_Plus_set simp del: ms.simps)
  from h(3) have "CHR '' '' \<notin> set w7" by (induction w7) auto
  moreover have "s = ''--request'' @ w2 @ w3 @ w4 @ ''--url'' @ w6 @ w7 @ t"
    unfolding a b c d e f h by simp
  moreover have "g = [w3, w7]" unfolding g h1 h2 h3 h4 h5 a b c d e f h by simp
  ultimately show ?thesis using b c d f h by blast
qed

lemma extractMethodAndUrl_cases:
  assumes "extractMethodAndUrl r s = (M, U)"
  shows "(M, U) = (''GET'', [])
       \<or> (\<exists>d w g t. d \<le> length s \<and> (w, g, t) \<in> set (ms r (drop d s))
             \<and> 1 < length g \<and> M = g ! 0 \<and> U = g ! 1)"
proof (cases "find_from r 0 s")
  case None
  with assms show ?thesis by (simp add: extractMethodAndUrl_def FindStringSubmatch_def)
next
  case (Some x)
  obtain j w g t where x: "x = (j, w, g, t)" by (cases x) auto
  from find_from_Some [OF Some [unfolded x]]
  obtain d where d: "d \<le> length s" "ms r (drop d s) \<noteq> []" "hd (ms r (drop d s)) = (w, g, t)"
    by blast
  then have m: "(w, g, t) \<in> set (ms r (drop d s))" by (metis hd_in_set)
  show ?thesis
  proof (cases "1 < length g")
    case True
    with assms Some x have "M = g ! 0" "U = g ! 1"
      by (auto simp: extractMethodAndUrl_def FindStringSubmatch_def Let_def)
    with d m True show ?thesis by blast
  next
    case False
    with assms Some x show ?thesis
      by (auto simp: extractMethodAndUrl_def FindStringSubmatch_def Let_def)
  qed
qed

lemma extract_main_go_shape:
  assumes "extractMethodAndUrl reMethodAndUrl_main_go s = (M, U)"
  shows "(M, U) = (''GET'', [])
       \<or> (\<exists>pre post. s = pre @ ''--request '' @ M @ '' '' @ quoted U @ post \<and> M \<noteq> []
             \<and> list_all (in_cls Word) M \<and> squote \<notin> set U)"
proof -
  from extractMethodAndUrl_cases [OF assms]
  consider "(M, U) = (''GET'', [])"
    | d w g t where "d \<le> length s" "(w, g, t) \<in> set (ms reMethodAndUrl_main_go (drop d s))"
        "M = g ! 0" "U = g ! 1" by blast
  then show ?thesis
  proof cases
    case 1
    then show ?thesis by blast
  next
    case 2
    from ms_main_go_shape [OF 2(2)]
    obtain M' U' where s: "drop d s = ''--request '' @ M' @ '' '' @ quoted U' @ t"
      and g: "g = [M', U']" and p: "M' \<noteq> []" "list_all (in_cls Word) M'" "squote \<notin> set U'"
      by blast
    have "s = take d s @ drop d s" by simp
    then have "s = take d s @ ''--request '' @ M @ '' '' @ quoted U @ t"
      unfolding s using g 2(3,4) by simp
    moreover from g 2(3,4) have "M = M'" "U = U'" by simp_all
    ultimately show ?thesis using p by blast
  qed
qed

lemma extract_part_000_shape:
  assumes "extractMethodAndUrl reMethodAndUrl_part_000 s = (M, U)"
  shows "(M, U) = (''GET'', [])
       \<or> (\<exists>pre wa wb wc post.
             s = pre @ ''--request'' @ wa @ M @ wb @ ''--url'' @ wc @ U @ post
             \<and> wa \<noteq> [] \<and> list_all (in_cls Space) wa \<and> M \<noteq> [] \<and> list_all (in_cls Word) M
             \<and> wb \<noteq> [] \<and> list_all (in_cls Space) wb \<and> wc \<noteq> [] \<and> list_all (in_cls Space) wc
             \<and> U \<noteq> [] \<and> CHR '' '' \<notin> set U)"
proof -
  from extractMethodAndUrl_cases [OF assms]
  consider "(M, U) = (''GET'', [])"
    | d w g t where "d \<le> length s" "(w, g, t) \<in> set (ms reMethodAndUrl_part_000 (drop d s))"
        "M = g ! 0" "U = g ! 1" by blast
  then show ?thesis
  proof cases
    case 1
    then show ?thesis by blast
  next
    case 2
    from ms_part_000_shape [OF 2(2)]
    obtain wa M' wb wc tok where
      s: "drop d s = ''--request'' @ wa @ M' @ wb @ ''--url'' @ wc @ tok @ t"
      and g: "g = [M', tok]"
      and p: "wa \<noteq> []" "list_all (in_cls Space) wa" "M' \<noteq> []" "list_all (in_cls Word) M'"
        "wb \<noteq> []" "list_all (in_cls Space) wb" "wc \<noteq> []" "list_all (in_cls Space) wc"
        "tok \<noteq> []" "CHR '' '' \<notin> set tok"
      by blast
    have "s = take d s @ drop d s" by simp
    then have "s = take d s @ ''--request'' @ wa @ M @ wb @ ''--url'' @ wc @ U @ t"
      unfolding s using g 2(3,4) by simp
    moreover from g 2(3,4) have "M = M'" "U = tok" by simp_all
    ultimately show ?thesis using p by blast
  qed
qed

lemma extractMethodAndUrl_nowhere:
  "\<forall>i\<le>length s. \<not> matches_at r s i \<Longrightarrow> extractMethodAndUrl r s = (''GET'', [])"
  by (simp add: extractMethodAndUrl_def FindStringSubmatch_nowhere)

lemma main_go_result:
  assumes "extractMethodAndUrl reMethodAndUrl_main_go (normalize c) = (M, U)"
    and "url_Parse (withDefaultScheme U) = Some u"
  shows "\<exists>r. parseCurlCommand_main_go order c = Inr r \<and> http_method (request r) = M
           \<and> url (request r)
             = \<lparr>url_raw = URL_String u, protocol = Scheme u, host = [Hostname u],
                port = Port u, path = [strings_TrimLeft (Path u) ''/''],
                query = concat (map (\<lambda>(key, vals).
                                  map (\<lambda>v. \<lparr>query_key = key, query_value = v,
                                             disabled = False\<rparr>) vals)
                                (order (Query u)))\<rparr>"
  using assms by (simp add: parseCurlCommand_main_go_def Let_def)

lemma part_000_result:
  assumes "extractMethodAndUrl reMethodAndUrl_part_000 (normalize c) = (M, U)"
    and "url_Parse (withDefaultScheme U) = Some u" "Hostname u \<noteq> []"
  shows "\<exists>r. parseCurlCommand_part_000 c = Some r \<and> http_method (request r) = M
           \<and> url (request r)
             = \<lparr>url_raw = URL_String u, protocol = Scheme u, host = [Hostname u],
                port = Port u, path = [strings_TrimLeft (Path u) ''/''],
                query = map_of (Query u)\<rparr>"
  using assms by (simp add: parseCurlCommand_part_000_def Let_def)

lemma Hostname_of_empty_token:
  "map_option Hostname (url_Parse (withDefaultScheme [])) = Some []"
  by code_simp

lemma main_go_default_record:
  assumes "extractMethodAndUrl reMethodAndUrl_main_go (normalize c) = (''GET'', [])"
  shows "\<exists>r. parseCurlCommand_main_go order c = Inr r \<and> http_method (request r) = ''GET''
           \<and> host (url (request r)) = [[]]"
proof -
  from Hostname_of_empty_token obtain u where
    "url_Parse (withDefaultScheme []) = Some u" "Hostname u = []" by auto
  with assms show ?thesis by (simp add: parseCurlCommand_main_go_def Let_def)
qed

lemma part_000_default_record:
  assumes "extractMethodAndUrl reMethodAndUrl_part_000 (normalize c) = (''GET'', [])"
  shows "parseCurlCommand_part_000 c = None"
proof -
  from Hostname_of_empty_token obtain u where
    "url_Parse (withDefaultScheme []) = Some u" "Hostname u = []" by auto
  with assms show ?thesis by (simp add: parseCurlCommand_part_000_def Let_def)
qed

lemma extract_main_go_leftmost:
  assumes "s = pre @ ''--request '' @ M @ '' '' @ quoted U @ post"
    and "M \<noteq> []" "list_all (in_cls Word) M" "squote \<notin> set U"
    and "\<forall>i<length pre. \<not> matches_at reMethodAndUrl_main_go s i"
  shows "extractMethodAndUrl reMethodAndUrl_main_go s = (M, U)"
proof -
  obtain rest where m: "ms reMethodAndUrl_main_go (''--request '' @ M @ '' '' @ quoted U @ post)
           = (''--request '' @ M @ '' '' @ quoted U, [M, U], post) # rest"
    using ms_reMethodAndUrl_main_go [OF assms(2-4), of post] by blast
  from assms(5) have l: "\<forall>i<length pre. \<not> matches_at reMethodAndUrl_main_go
      (pre @ ''--request '' @ M @ '' '' @ quoted U @ post) i" unfolding assms(1) .
  show ?thesis unfolding assms(1) by (rule extractMethodAndUrl_first [OF l m])
qed

lemma extract_part_000_leftmost:
  assumes "s = pre @ ''--request'' @ wa @ M @ wb @ ''--url'' @ wc @ tok @ post"
    and "wa \<noteq> []" "list_all (in_cls Space) wa" "M \<noteq> []" "list_all (in_cls Word) M"
    and "wb \<noteq> []" "list_all (in_cls Space) wb" "wc \<noteq> []" "list_all (in_cls Space) wc"
    and "tok \<noteq> []" "CHR '' '' \<notin> set tok" "\<not> in_cls Space (hd tok)"
    and "post = [] \<or> hd post = CHR '' ''"
    and "\<forall>i<length pre. \<not> matches_at reMethodAndUrl_part_000 s i"
  shows "extractMethodAndUrl reMethodAndUrl_part_000 s = (M, tok)"
proof -
  obtain rest where m: "ms reMethodAndUrl_part_000
                  (''--request'' @ wa @ M @ wb @ ''--url'' @ wc @ tok @ post)
           = (''--request'' @ wa @ M @ wb @ ''--url'' @ wc @ tok, [M, tok], post) # rest"
    using ms_reMethodAndUrl_part_000 [OF assms(2-13)] by blast
  from assms(14) have l: "\<forall>i<length pre. \<not> matches_at reMethodAndUrl_part_000
      (pre @ ''--request'' @ wa @ M @ wb @ ''--url'' @ wc @ tok @ post) i" unfolding assms(1) .
  show ?thesis unfolding assms(1) by (rule extractMethodAndUrl_first [OF l m])
qed

section \<open>The claims\<close>

text \<open>
  C1, as amended.  Each file knows one of the two dialects, not both.  In
  \<^verbatim>\<open>src/main.go\<close>, when the leftmost match of the file's pattern in the normalized
  command is an occurrence of the quoted form \<^verbatim>\<open>--request <METHOD> '<url>'\<close> (one
  space before and after the method), that method and that URL are extracted; in
  \<^verbatim>\<open>src/unnamed/part_000\<close> the same holds of the unquoted form
  \<^verbatim>\<open>--request <METHOD> --url <token>\<close> (runs of white space as separators, the
  token starting with a byte that is not white space and ending before the next space).
  When the extracted URL, resolved, parses (and, in \<^verbatim>\<open>src/unnamed/part_000\<close>, has a
  host name), a record results, its method is the extracted one and every entry of its
  URL (raw text, protocol, host, port, path and query) is that of the resolved URL.
  ``Leftmost'' is: no match of the file's pattern starts before the occurrence.

  Conversely, a file extracts a method and a URL other than the defaults \<^verbatim>\<open>GET\<close> and
  the empty string only from an occurrence of its own form.  When its pattern matches
  nowhere in the normalized command, the method is \<^verbatim>\<open>GET\<close> and the URL is empty:
  \<^verbatim>\<open>src/main.go\<close> then builds a record with the empty host, and
  \<^verbatim>\<open>src/unnamed/part_000\<close> returns \<^verbatim>\<open>nil\<close>.
\<close>

theorem each_file_extracts_its_own_dialect:
  "(normalize c = pre @ ''--request '' @ M @ '' '' @ quoted U @ post
      \<and> M \<noteq> [] \<and> list_all (in_cls Word) M \<and> squote \<notin> set U
      \<and> (\<forall>i<length pre. \<not> matches_at reMethodAndUrl_main_go (normalize c) i)
     \<longrightarrow> extractMethodAndUrl reMethodAndUrl_main_go (normalize c) = (M, U)
         \<and> (\<forall>u. url_Parse (withDefaultScheme U) = Some u \<longrightarrow>
               (\<exists>r. parseCurlCommand_main_go order c = Inr r
                    \<and> http_method (request r) = M
                    \<and> url (request r)
                      = \<lparr>url_raw = URL_String u, protocol = Scheme u, host = [Hostname u],
                         port = Port u, path = [strings_TrimLeft (Path u) ''/''],
                         query = concat (map (\<lambda>(key, vals).
                                           map (\<lambda>v. \<lparr>query_key = key, query_value = v,
                                                      disabled = False\<rparr>) vals)
                                         (order (Query u)))\<rparr>)))
   \<and> (normalize c = pre @ ''--request'' @ wa @ M @ wb @ ''--url'' @ wc @ tok @ post
      \<and> wa \<noteq> [] \<and> list_all (in_cls Space) wa \<and> M \<noteq> [] \<and> list_all (in_cls Word) M
      \<and> wb \<noteq> [] \<and> list_all (in_cls Space) wb \<and> wc \<noteq> [] \<and> list_all (in_cls Space) wc
      \<and> tok \<noteq> [] \<and> CHR '' '' \<notin> set tok \<and> \<not> in_cls Space (hd tok)
      \<and> (post = [] \<or> hd post = CHR '' '')
      \<and> (\<forall>i<length pre. \<not> matches_at reMethodAndUrl_part_000 (normalize c) i)
     \<longrightarrow> extractMethodAndUrl reMethodAndUrl_part_000 (normalize c) = (M, tok)
         \<and> (\<forall>u. url_Parse (withDefaultScheme tok) = Some u \<and> Hostname u \<noteq> [] \<longrightarrow>
               (\<exists>r. parseCurlCommand_part_000 c = Some r
                    \<and> http_method (request r) = M
                    \<and> url (request r)
                      = \<lparr>url_raw = URL_String u, protocol = Scheme u, host = [Hostname u],
                         port = Port u, path = [strings_TrimLeft (Path u) ''/''],
                         query = map_of (Query u)\<rparr>)))
   \<and> (\<forall>Ma Ua. extractMethodAndUrl reMethodAndUrl_main_go (normalize c) = (Ma, Ua) \<longrightarrow>
         (Ma, Ua) = (''GET'', [])
         \<or> (\<exists>p q. normalize c = p @ ''--request '' @ Ma @ '' '' @ quoted Ua @ q \<and> Ma \<noteq> []
               \<and> list_all (in_cls Word) Ma \<and> squote \<notin> set Ua))
   \<and> (\<forall>Ma Ua. extractMethodAndUrl reMethodAndUrl_part_000 (normalize c) = (Ma, Ua) \<longrightarrow>
         (Ma, Ua) = (''GET'', [])
         \<or> (\<exists>p xa xb xc q.
               normalize c = p @ ''--request'' @ xa @ Ma @ xb @ ''--url'' @ xc @ Ua @ q
               \<and> xa \<noteq> [] \<and> list_all (in_cls Space) xa \<and> Ma \<noteq> [] \<and> list_all (in_cls Word) Ma
               \<and> xb \<noteq> [] \<and> list_all (in_cls Space) xb \<and> xc \<noteq> [] \<and> list_all (in_cls Space) xc
               \<and> Ua \<noteq> [] \<and> CHR '' '' \<notin> set Ua))
   \<and> ((\<forall>i\<le>length (normalize c). \<not> matches_at reMethodAndUrl_main_go (normalize c) i) \<longrightarrow>
         extractMethodAndUrl reMethodAndUrl_main_go (normalize c) = (''GET'', [])
         \<and> (\<exists>r. parseCurlCommand_main_go order c = Inr r \<and> http_method (request r) = ''GET''
                \<and> host (url (request r)) = [[]]))
   \<and> ((\<forall>i\<le>length (normalize c). \<not> matches_at reMethodAndUrl_part_000 (normalize c) i) \<longrightarrow>
         extractMethodAndUrl reMethodAndUrl_part_000 (normalize c) = (''GET'', [])
         \<and> parseCurlCommand_part_000 c = None)"
  (is "?A \<and> ?B \<and> ?C \<and> ?D \<and> ?E \<and> ?F")
proof -
  have ?A
  proof (intro impI)
    assume a: "normalize c = pre @ ''--request '' @ M @ '' '' @ quoted U @ post
      \<and> M \<noteq> [] \<and> list_all (in_cls Word) M \<and> squote \<notin> set U
      \<and> (\<forall>i<length pre. \<not> matches_at reMethodAndUrl_main_go (normalize c) i)"
    then have e: "extractMethodAndUrl reMethodAndUrl_main_go (normalize c) = (M, U)"
      by (intro extract_main_go_leftmost [where pre = pre and post = post]) blast+
    then show "extractMethodAndUrl reMethodAndUrl_main_go (normalize c) = (M, U)
         \<and> (\<forall>u. url_Parse (withDefaultScheme U) = Some u \<longrightarrow>
               (\<exists>r. parseCurlCommand_main_go order c = Inr r
                    \<and> http_method (request r) = M
                    \<and> url (request r)
                      = \<lparr>url_raw = URL_String u, protocol = Scheme u, host = [Hostname u],
                         port = Port u, path = [strings_TrimLeft (Path u) ''/''],
                         query = concat (map (\<lambda>(key, vals).
                                           map (\<lambda>v. \<lparr>query_key = key, query_value = v,
                                                      disabled = False\<rparr>) vals)
                                         (order (Query u)))\<rparr>))"
      using main_go_result [OF e] by blast
  qed
  moreover have ?B
  proof (intro impI)
    assume a: "normalize c = pre @ ''--request'' @ wa @ M @ wb @ ''--url'' @ wc @ tok @ post
      \<and> wa \<noteq> [] \<and> list_all (in_cls Space) wa \<and> M \<noteq> [] \<and> list_all (in_cls Word) M
      \<and> wb \<noteq> [] \<and> list_all (in_cls Space) wb \<and> wc \<noteq> [] \<and> list_all (in_cls Space) wc
      \<and> tok \<noteq> [] \<and> CHR '' '' \<notin> set tok \<and> \<not> in_cls Space (hd tok)
      \<and> (post = [] \<or> hd post = CHR '' '')
      \<and> (\<forall>i<length pre. \<not> matches_at reMethodAndUrl_part_000 (normalize c) i)"
    then have e: "extractMethodAndUrl reMethodAndUrl_part_000 (normalize c) = (M, tok)"
      by (intro extract_part_000_leftmost
            [where pre = pre and post = post and wa = wa and wb = wb and wc = wc]) blast+
    then show "extractMethodAndUrl reMethodAndUrl_part_000 (normalize c) = (M, tok)
         \<and> (\<forall>u. url_Parse (withDefaultScheme tok) = Some u \<and> Hostname u \<noteq> [] \<longrightarrow>
               (\<exists>r. parseCurlCommand_part_000 c = Some r
                    \<and> http_method (request r) = M
                    \<and> url (request r)
                      = \<lparr>url_raw = URL_String u, protocol = Scheme u, host = [Hostname u],
                         port = Port u, path = [strings_TrimLeft (Path u) ''/''],
                         query = map_of (Query u)\<rparr>))"
      using part_000_result [OF e] by blast
  qed
  moreover have ?C using extract_main_go_shape [of "normalize c"] by blast
  moreover have ?D using extract_part_000_shape [of "normalize c"] by blast
  moreover have ?E
    using extractMethodAndUrl_nowhere [of "normalize c" reMethodAndUrl_main_go]
      main_go_default_record [of c order] by blast
  moreover have ?F
    using extractMethodAndUrl_nowhere [of "normalize c" reMethodAndUrl_part_000]
      part_000_default_record [of c] by blast
  ultimately show ?thesis by blast
qed


theorem each_file_extracts_its_own_dialect_witness:
  "extractMethodAndUrl reMethodAndUrl_main_go
     (normalize (''curl --request POST '' @ quoted ''http://api.example.com/users?a=1''
                 @ '' --header '' @ quoted ''A: b''))
     = (''POST'', ''http://api.example.com/users?a=1'')
   \<and> map_sum id (http_method \<circ> request)
         (parseCurlCommand_main_go id
            (''curl --request POST '' @ quoted ''http://api.example.com/users?a=1''
             @ '' --header '' @ quoted ''A: b''))
       = Inr ''POST''
   \<and> map_sum id (url \<circ> request)
         (parseCurlCommand_main_go id
            (''curl --request POST '' @ quoted ''http://api.example.com/users?a=1''
             @ '' --header '' @ quoted ''A: b''))
       = Inr \<lparr>url_raw = ''http://api.example.com/users?a=1'', protocol = ''http'',
               host = [''api.example.com''], port = [], path = [''users''],
               query = [\<lparr>query_key = ''a'', query_value = ''1'', disabled = False\<rparr>]\<rparr>
   \<and> (\<exists>p q. normalize (''curl --request POST '' @ quoted ''http://api.example.com/users?a=1''
                         @ '' --header '' @ quoted ''A: b'')
              = p @ ''--request '' @ ''POST'' @ '' ''
                  @ quoted ''http://api.example.com/users?a=1'' @ q)
   \<and> extractMethodAndUrl reMethodAndUrl_part_000
       (normalize (''curl --request PUT --url api.example.com/users?a=1 --header ''
                   @ quoted ''A: b''))
     = (''PUT'', ''api.example.com/users?a=1'')
   \<and> map_option (\<lambda>r. (http_method (request r), url_raw (url (request r)),
                       protocol (url (request r)), host (url (request r)),
                       port (url (request r)), path (url (request r)),
                       query (url (request r)) ''a''))
         (parseCurlCommand_part_000
            (''curl --request PUT --url api.example.com/users?a=1 --header '' @ quoted ''A: b''))
       = Some (''PUT'', ''http://api.example.com/users?a=1'', ''http'', [''api.example.com''],
               [], [''users''], Some [''1''])
   \<and> (\<exists>p xa xb xc q.
         normalize (''curl --request PUT --url api.example.com/users?a=1 --header ''
                    @ quoted ''A: b'')
         = p @ ''--request'' @ xa @ ''PUT'' @ xb @ ''--url'' @ xc
             @ ''api.example.com/users?a=1'' @ q)
   \<and> extractMethodAndUrl reMethodAndUrl_main_go
         (normalize ''curl --request PUT --url api.example.com/users'') = (''GET'', [])
   \<and> map_sum id (host \<circ> url \<circ> request)
         (parseCurlCommand_main_go id ''curl --request PUT --url api.example.com/users'')
       = Inr [[]]
   \<and> extractMethodAndUrl reMethodAndUrl_part_000
         (normalize (''curl --request POST '' @ quoted ''http://api.example.com/users''))
       = (''GET'', [])
   \<and> Option.is_none
         (parseCurlCommand_part_000
            (''curl --request POST '' @ quoted ''http://api.example.com/users''))"
proof -
  let ?post = "'' --header '' @ quoted ''A: b''"
  let ?U = "''http://api.example.com/users?a=1''"
  let ?tok = "''api.example.com/users?a=1''"
  let ?c1 = "''curl --request POST '' @ quoted ''http://api.example.com/users?a=1''
                 @ '' --header '' @ quoted ''A: b''"
  let ?c2 = "''curl --request PUT --url api.example.com/users?a=1 --header '' @ quoted ''A: b''"
  let ?c3 = "''curl --request PUT --url api.example.com/users''"
  let ?c4 = "''curl --request POST '' @ quoted ''http://api.example.com/users''"
  have e1: "normalize ?c1 = ''curl '' @ ''--request '' @ ''POST'' @ '' '' @ quoted ?U @ ?post"
    by code_simp
  have e2: "normalize ?c2 = ''curl '' @ ''--request'' @ '' '' @ ''PUT'' @ '' '' @ ''--url'' @ '' ''
        @ ?tok @ ?post" by code_simp
  have "list_all (\<lambda>i. \<not> matches_at reMethodAndUrl_main_go (normalize ?c1) i)
          [0..<length ''curl '']"
    by code_simp
  then have l1: "\<forall>i<length ''curl ''. \<not> matches_at reMethodAndUrl_main_go (normalize ?c1) i"
    by (rule list_all_below)
  have "list_all (\<lambda>i. \<not> matches_at reMethodAndUrl_part_000 (normalize ?c2) i)
          [0..<length ''curl '']"
    by code_simp
  then have l2: "\<forall>i<length ''curl ''. \<not> matches_at reMethodAndUrl_part_000 (normalize ?c2) i"
    by (rule list_all_below)
  have "list_all (\<lambda>i. \<not> matches_at reMethodAndUrl_main_go (normalize ?c3) i)
          [0..<Suc (length (normalize ?c3))]"
    by code_simp
  then have l3: "\<forall>i\<le>length (normalize ?c3).
      \<not> matches_at reMethodAndUrl_main_go (normalize ?c3) i"
    by (rule list_all_upto)
  have "list_all (\<lambda>i. \<not> matches_at reMethodAndUrl_part_000 (normalize ?c4) i)
          [0..<Suc (length (normalize ?c4))]"
    by code_simp
  then have l4: "\<forall>i\<le>length (normalize ?c4).
      \<not> matches_at reMethodAndUrl_part_000 (normalize ?c4) i"
    by (rule list_all_upto)
  have h1: "''POST'' \<noteq> [] \<and> list_all (in_cls Word) ''POST'' \<and> squote \<notin> set ?U" by code_simp
  have h2: "'' '' \<noteq> [] \<and> list_all (in_cls Space) '' '' \<and> ''PUT'' \<noteq> []
      \<and> list_all (in_cls Word) ''PUT'' \<and> ?tok \<noteq> []
      \<and> CHR '' '' \<notin> set ?tok \<and> \<not> in_cls Space (hd ?tok)
      \<and> (?post = [] \<or> hd ?post = CHR '' '')" by code_simp
  have r1: "url_Parse (withDefaultScheme ?U) \<noteq> None" by code_simp
  have r2: "map_option Hostname (url_Parse (withDefaultScheme ?tok)) = Some ''api.example.com''"
    by code_simp
  have u1: "map_option (\<lambda>u. \<lparr>url_raw = URL_String u, protocol = Scheme u, host = [Hostname u],
                           port = Port u, path = [strings_TrimLeft (Path u) ''/''],
                           query = concat (map (\<lambda>(key, vals).
                                             map (\<lambda>v. \<lparr>query_key = key, query_value = v,
                                                        disabled = False\<rparr>) vals)
                                           (id (Query u)))\<rparr>)
              (url_Parse (withDefaultScheme ?U))
      = Some \<lparr>url_raw = ''http://api.example.com/users?a=1'', protocol = ''http'',
               host = [''api.example.com''], port = [], path = [''users''],
               query = [\<lparr>query_key = ''a'', query_value = ''1'', disabled = False\<rparr>]\<rparr>"
    by code_simp
  have u2: "map_option (\<lambda>u. (URL_String u, Scheme u, [Hostname u], Port u,
                           [strings_TrimLeft (Path u) ''/''], map_of (Query u) ''a''))
              (url_Parse (withDefaultScheme ?tok))
      = Some (''http://api.example.com/users?a=1'', ''http'', [''api.example.com''],
               [], [''users''], Some [''1''])"
    by code_simp
  from r1 obtain u where p1: "url_Parse (withDefaultScheme ?U) = Some u" by auto
  from r2 obtain v where p2: "url_Parse (withDefaultScheme ?tok) = Some v"
    and "Hostname v = ''api.example.com''" by auto
  then have n2: "Hostname v \<noteq> []" by simp
  note t1 = each_file_extracts_its_own_dialect
         [where M = "''POST''" and U = ?U and pre = "''curl ''"
            and post = ?post and order = id and c = ?c1]
  note t2 = each_file_extracts_its_own_dialect
         [where M = "''PUT''" and wa = "'' ''" and wb = "'' ''" and wc = "'' ''"
            and tok = ?tok and pre = "''curl ''" and post = ?post and c = ?c2]
  note t3 = each_file_extracts_its_own_dialect [where order = id and c = ?c3]
  note t4 = each_file_extracts_its_own_dialect [where c = ?c4]
  have hA: "normalize ?c1 = ''curl '' @ ''--request '' @ ''POST'' @ '' '' @ quoted ?U @ ?post
      \<and> ''POST'' \<noteq> [] \<and> list_all (in_cls Word) ''POST'' \<and> squote \<notin> set ?U
      \<and> (\<forall>i<length ''curl ''. \<not> matches_at reMethodAndUrl_main_go (normalize ?c1) i)"
    using e1 h1 l1 by (elim conjE) (intro conjI; assumption)
  note A = t1 [THEN conjunct1, THEN mp, OF hA]
  note x1 = A [THEN conjunct1]
  from A [THEN conjunct2, THEN spec, THEN mp, OF p1]
  obtain a where a: "parseCurlCommand_main_go id ?c1 = Inr a"
    and u: "http_method (request a) = ''POST''"
    "url (request a) = \<lparr>url_raw = URL_String u, protocol = Scheme u, host = [Hostname u],
                           port = Port u, path = [strings_TrimLeft (Path u) ''/''],
                           query = concat (map (\<lambda>(key, vals).
                                             map (\<lambda>v. \<lparr>query_key = key, query_value = v,
                                                        disabled = False\<rparr>) vals)
                                           (id (Query u)))\<rparr>"
    by (elim conjE exE)
  have y1: "url (request a)
      = \<lparr>url_raw = ''http://api.example.com/users?a=1'', protocol = ''http'',
               host = [''api.example.com''], port = [], path = [''users''],
               query = [\<lparr>query_key = ''a'', query_value = ''1'', disabled = False\<rparr>]\<rparr>"
    using u1 unfolding p1 u(2) by (simp only: option.map option.inject)
  from t1 [THEN conjunct2, THEN conjunct2, THEN conjunct1, THEN spec, THEN spec, THEN mp, OF x1]
  have "\<exists>p q. normalize ?c1 = p @ ''--request '' @ ''POST'' @ '' '' @ quoted ?U @ q
         \<and> ''POST'' \<noteq> [] \<and> list_all (in_cls Word) ''POST'' \<and> squote \<notin> set ?U"
    by (simp only: prod.inject list.distinct simp_thms)
  then have z1: "\<exists>p q. normalize ?c1
              = p @ ''--request '' @ ''POST'' @ '' '' @ quoted ?U @ q"
    by (elim exE conjE) (intro exI)
  have hB: "normalize ?c2 = ''curl '' @ ''--request'' @ '' '' @ ''PUT'' @ '' '' @ ''--url'' @ '' ''
        @ ?tok @ ?post
      \<and> '' '' \<noteq> [] \<and> list_all (in_cls Space) '' '' \<and> ''PUT'' \<noteq> []
      \<and> list_all (in_cls Word) ''PUT''
      \<and> '' '' \<noteq> [] \<and> list_all (in_cls Space) '' ''
      \<and> '' '' \<noteq> [] \<and> list_all (in_cls Space) '' ''
      \<and> ?tok \<noteq> [] \<and> CHR '' '' \<notin> set ?tok \<and> \<not> in_cls Space (hd ?tok)
      \<and> (?post = [] \<or> hd ?post = CHR '' '')
      \<and> (\<forall>i<length ''curl ''. \<not> matches_at reMethodAndUrl_part_000 (normalize ?c2) i)"
    using e2 h2 l2 by (elim conjE) (intro conjI; assumption)
  note B = t2 [THEN conjunct2, THEN conjunct1, THEN mp, OF hB]
  note x2 = B [THEN conjunct1]
  from B [THEN conjunct2, THEN spec, THEN mp, OF conjI [OF p2 n2]]
  obtain b where b: "parseCurlCommand_part_000 ?c2 = Some b"
    and v: "http_method (request b) = ''PUT''"
    "url (request b) = \<lparr>url_raw = URL_String v, protocol = Scheme v, host = [Hostname v],
                           port = Port v, path = [strings_TrimLeft (Path v) ''/''],
                           query = map_of (Query v)\<rparr>"
    by (elim conjE exE)
  have y2: "(url_raw (url (request b)),
                       protocol (url (request b)), host (url (request b)),
                       port (url (request b)), path (url (request b)),
                       query (url (request b)) ''a'')
      = (''http://api.example.com/users?a=1'', ''http'', [''api.example.com''],
               [], [''users''], Some [''1''])"
    using u2 unfolding p2 v(2) by (simp only: option.map option.inject url_json.simps)
  from t2 [THEN conjunct2, THEN conjunct2, THEN conjunct2, THEN conjunct1,
           THEN spec, THEN spec, THEN mp, OF x2]
  have "\<exists>p xa xb xc q.
               normalize ?c2 = p @ ''--request'' @ xa @ ''PUT'' @ xb @ ''--url'' @ xc @ ?tok @ q
               \<and> xa \<noteq> [] \<and> list_all (in_cls Space) xa \<and> ''PUT'' \<noteq> []
               \<and> list_all (in_cls Word) ''PUT''
               \<and> xb \<noteq> [] \<and> list_all (in_cls Space) xb \<and> xc \<noteq> [] \<and> list_all (in_cls Space) xc
               \<and> ?tok \<noteq> [] \<and> CHR '' '' \<notin> set ?tok"
    by (simp only: prod.inject list.distinct simp_thms)
  then have z2: "\<exists>p xa xb xc q. normalize ?c2
         = p @ ''--request'' @ xa @ ''PUT'' @ xb @ ''--url'' @ xc @ ?tok @ q"
    by (elim exE conjE) (intro exI)
  note E = t3 [THEN conjunct2, THEN conjunct2, THEN conjunct2, THEN conjunct2, THEN conjunct1,
               THEN mp, OF l3]
  note x3 = E [THEN conjunct1]
  from E [THEN conjunct2] obtain r3 where
    "parseCurlCommand_main_go id ?c3 = Inr r3" "host (url (request r3)) = [[]]"
    by (elim conjE exE)
  then have y3: "map_sum id (host \<circ> url \<circ> request) (parseCurlCommand_main_go id ?c3) = Inr [[]]"
    by simp
  note F = t4 [THEN conjunct2, THEN conjunct2, THEN conjunct2, THEN conjunct2, THEN conjunct2,
               THEN mp, OF l4]
  note x4 = F [THEN conjunct1]
  note y4 = F [THEN conjunct2]
  from a u(1) y1 have w1: "map_sum id (http_method \<circ> request) (parseCurlCommand_main_go id ?c1)
       = Inr ''POST''"
    and w2: "map_sum id (url \<circ> request) (parseCurlCommand_main_go id ?c1)
       = Inr \<lparr>url_raw = ''http://api.example.com/users?a=1'', protocol = ''http'',
               host = [''api.example.com''], port = [], path = [''users''],
               query = [\<lparr>query_key = ''a'', query_value = ''1'', disabled = False\<rparr>]\<rparr>"
    by simp_all
  from b v(1) y2 have w3: "map_option (\<lambda>r. (http_method (request r), url_raw (url (request r)),
                       protocol (url (request r)), host (url (request r)),
                       port (url (request r)), path (url (request r)),
                       query (url (request r)) ''a''))
         (parseCurlCommand_part_000 ?c2)
       = Some (''PUT'', ''http://api.example.com/users?a=1'', ''http'', [''api.example.com''],
               [], [''users''], Some [''1''])"
    by simp
  from y4 have w4: "Option.is_none (parseCurlCommand_part_000 ?c4)" by simp
  from x1 w1 w2 z1 x2 w3 z2 x3 y3 x4 w4 show ?thesis by (intro conjI)
qed

text \<open>
  On these two commands, each in the other file's dialect, the pattern does not match:
  the method is the default \<^verbatim>\<open>GET\<close> (not \<^verbatim>\<open>PUT\<close> or \<^verbatim>\<open>POST\<close>) and the URL token is empty, so that
  \<^verbatim>\<open>src/main.go\<close> builds a record without a host and \<^verbatim>\<open>src/unnamed/part_000\<close> returns
  \<^verbatim>\<open>nil\<close>.
\<close>

theorem other_dialect_counterexample:
  "extractMethodAndUrl reMethodAndUrl_main_go ''--request PUT --url api.example.com/users''
     = (''GET'', [])
   \<and> map_sum id (http_method \<circ> request)
         (parseCurlCommand_main_go id ''--request PUT --url api.example.com/users'') = Inr ''GET''
   \<and> map_sum id (host \<circ> url \<circ> request)
         (parseCurlCommand_main_go id ''--request PUT --url api.example.com/users'') = Inr [[]]
   \<and> extractMethodAndUrl reMethodAndUrl_part_000
         (''--request POST '' @ quoted ''http://api.example.com/users'') = (''GET'', [])
   \<and> Option.is_none
         (parseCurlCommand_part_000 (''--request POST '' @ quoted ''http://api.example.com/users''))"
  by code_simp

text \<open>
  C2.  The claim: for a command whose URL is empty, does not parse or has no host name,
  no record is built and nothing is appended to the collection, so that every entry of
  the collection has a non-empty host.  The code at the fixture
  \<^verbatim>\<open>--header 'X: Y'\<close>: \<^verbatim>\<open>parseCurlCommand\<close> of \<^verbatim>\<open>src/unnamed/part_000\<close> returns
  \<^verbatim>\<open>nil\<close>, and its \<^verbatim>\<open>main\<close> appends that \<^verbatim>\<open>nil\<close> to the items; \<^verbatim>\<open>src/main.go\<close>
  appends a record whose host is the empty string, and panics on a URL that does not
  parse.
\<close>

theorem hostless_result_is_appended:
  "Option.is_none (parseCurlCommand_part_000 (''--header '' @ quoted ''X: Y''))
   \<and> map Option.is_none (collect_part_000 [] [Some (''--header '' @ quoted ''X: Y'')]) = [True]
   \<and> map_sum id (map (host \<circ> url \<circ> request))
         (collect_main_go id [] [Some (''--header '' @ quoted ''X: Y'')]) = Inr [[[]]]
   \<and> collect_main_go id [] [Some (''--request GET '' @ quoted ''http://exa mple.com/x'')]
       = Inl NilPointerDereference"
  by code_simp

text \<open>
  C3.  The claim: the name of a record is the last non-empty path segment, and a fixed
  placeholder when the path is empty.  The code of \<^verbatim>\<open>src/unnamed/part_000\<close> at
  \<^verbatim>\<open>--request GET --url example.com\<close>: the path is empty, \<^verbatim>\<open>strings.Split\<close> returns
  the one-element list of the empty string, so \<^verbatim>\<open>len(pathSegments) > 0\<close> holds and the
  name is the empty string, not the placeholder.  \<^verbatim>\<open>src/main.go\<close> always uses the
  placeholder.
\<close>

theorem name_fallback_is_unreachable:
  "map_option Path (url_Parse (withDefaultScheme ''example.com'')) = Some []
   \<and> split_byte (CHR ''/'') (strings_Trim [] ''/'') = [[]]
   \<and> map_option name (parseCurlCommand_part_000 ''--request GET --url example.com'') = Some []
   \<and> map_option name (parseCurlCommand_part_000 ''--request GET --url example.com/a/users/'')
       = Some ''users''
   \<and> map_sum id name
         (parseCurlCommand_main_go id (''--request GET '' @ quoted ''http://example.com/a/users''))
       = Inr ''Generated from Curl''"
  by code_simp

text \<open>
  C4, as amended.  In \<^verbatim>\<open>src/main.go\<close> a command without a match of
  \<^verbatim>\<open>--data-raw '{...}'\<close> has the body mode \<^verbatim>\<open>none\<close> and an empty raw content (a
  \<^verbatim>\<open>--data\<close> flag is not looked for), and the leftmost \<^verbatim>\<open>--data-raw '{...}'\<close> gives
  the mode \<^verbatim>\<open>raw\<close> and its brace-delimited text as the raw content.  In
  \<^verbatim>\<open>src/unnamed/part_000\<close> the mode is always \<^verbatim>\<open>raw\<close>; the raw content is the
  brace-delimited text of the leftmost \<^verbatim>\<open>--data '{...}'\<close>, without one that of the
  leftmost \<^verbatim>\<open>--data-raw '{...}'\<close>, and without both it is empty.  The text between the
  braces, \<open>x\<close>, has no single quote.
\<close>

theorem body_of_each_file:
  "(\<forall>r. parseCurlCommand_main_go order c = Inr r
         \<and> (\<forall>i\<le>length (normalize c). \<not> matches_at reDataRaw (normalize c) i)
       \<longrightarrow> body (request r) = \<lparr>mode = ''none'', body_raw = []\<rparr>)
   \<and> (\<forall>r. parseCurlCommand_main_go order c = Inr r
         \<and> normalize c = pre @ ''--data-raw '' @ quoted (''{'' @ x @ ''}'') @ post
         \<and> squote \<notin> set x
         \<and> (\<forall>i<length pre. \<not> matches_at reDataRaw (normalize c) i)
       \<longrightarrow> body (request r) = \<lparr>mode = ''raw'', body_raw = ''{'' @ x @ ''}''\<rparr>)
   \<and> (\<forall>r. parseCurlCommand_part_000 c = Some r \<longrightarrow> mode (body (request r)) = ''raw'')
   \<and> (\<forall>r. parseCurlCommand_part_000 c = Some r
         \<and> (\<forall>i\<le>length (normalize c). \<not> matches_at reData (normalize c) i)
         \<and> (\<forall>i\<le>length (normalize c). \<not> matches_at reDataRaw (normalize c) i)
       \<longrightarrow> body_raw (body (request r)) = [])
   \<and> (\<forall>r. parseCurlCommand_part_000 c = Some r
         \<and> normalize c = pre @ ''--data '' @ quoted (''{'' @ x @ ''}'') @ post
         \<and> squote \<notin> set x
         \<and> (\<forall>i<length pre. \<not> matches_at reData (normalize c) i)
       \<longrightarrow> body_raw (body (request r)) = ''{'' @ x @ ''}'')
   \<and> (\<forall>r. parseCurlCommand_part_000 c = Some r
         \<and> (\<forall>i\<le>length (normalize c). \<not> matches_at reData (normalize c) i)
         \<and> normalize c = pre @ ''--data-raw '' @ quoted (''{'' @ x @ ''}'') @ post
         \<and> squote \<notin> set x
         \<and> (\<forall>i<length pre. \<not> matches_at reDataRaw (normalize c) i)
       \<longrightarrow> body_raw (body (request r)) = ''{'' @ x @ ''}'')"
proof (intro conjI allI impI)
  fix r
  assume a: "parseCurlCommand_main_go order c = Inr r
         \<and> (\<forall>i\<le>length (normalize c). \<not> matches_at reDataRaw (normalize c) i)"
  then have "FindStringSubmatch reDataRaw (normalize c) = []"
    by (intro FindStringSubmatch_nowhere) blast
  with body_main_go [of order c r] a
  show "body (request r) = \<lparr>mode = ''none'', body_raw = []\<rparr>" by simp
next
  fix r
  assume a: "parseCurlCommand_main_go order c = Inr r
         \<and> normalize c = pre @ ''--data-raw '' @ quoted (''{'' @ x @ ''}'') @ post
         \<and> squote \<notin> set x
         \<and> (\<forall>i<length pre. \<not> matches_at reDataRaw (normalize c) i)"
  then have "FindStringSubmatch reDataRaw (normalize c)
         = [''--data-raw '' @ quoted (''{'' @ x @ ''}''), ''{'' @ x @ ''}'']"
    by (intro Find_reDataRaw_at) blast+
  with body_main_go [of order c r] a
  show "body (request r) = \<lparr>mode = ''raw'', body_raw = ''{'' @ x @ ''}''\<rparr>" by simp
next
  fix r assume "parseCurlCommand_part_000 c = Some r"
  then show "mode (body (request r)) = ''raw''" by (rule body_part_000)
next
  fix r
  assume a: "parseCurlCommand_part_000 c = Some r
         \<and> (\<forall>i\<le>length (normalize c). \<not> matches_at reData (normalize c) i)
         \<and> (\<forall>i\<le>length (normalize c). \<not> matches_at reDataRaw (normalize c) i)"
  then have "FindStringSubmatch reData (normalize c) = []"
    "FindStringSubmatch reDataRaw (normalize c) = []"
    by (blast intro: FindStringSubmatch_nowhere)+
  with body_part_000(2) [of c r] a show "body_raw (body (request r)) = []" by simp
next
  fix r
  assume a: "parseCurlCommand_part_000 c = Some r
         \<and> normalize c = pre @ ''--data '' @ quoted (''{'' @ x @ ''}'') @ post
         \<and> squote \<notin> set x
         \<and> (\<forall>i<length pre. \<not> matches_at reData (normalize c) i)"
  then have "FindStringSubmatch reData (normalize c)
         = [''--data '' @ quoted (''{'' @ x @ ''}''), ''{'' @ x @ ''}'']"
    by (intro Find_reData_at) blast+
  with body_part_000(2) [of c r] a show "body_raw (body (request r)) = ''{'' @ x @ ''}''" by simp
next
  fix r
  assume a: "parseCurlCommand_part_000 c = Some r
         \<and> (\<forall>i\<le>length (normalize c). \<not> matches_at reData (normalize c) i)
         \<and> normalize c = pre @ ''--data-raw '' @ quoted (''{'' @ x @ ''}'') @ post
         \<and> squote \<notin> set x
         \<and> (\<forall>i<length pre. \<not> matches_at reDataRaw (normalize c) i)"
  then have "FindStringSubmatch reData (normalize c) = []"
    by (blast intro: FindStringSubmatch_nowhere)
  moreover from a have "FindStringSubmatch reDataRaw (normalize c)
         = [''--data-raw '' @ quoted (''{'' @ x @ ''}''), ''{'' @ x @ ''}'']"
    by (intro Find_reDataRaw_at) blast+
  ultimately show "body_raw (body (request r)) = ''{'' @ x @ ''}''"
    using body_part_000(2) [of c r] a by simp
qed

theorem body_of_each_file_witness:
  "map_sum id (body \<circ> request)
     (parseCurlCommand_main_go id (''--request GET '' @ quoted ''http://example.com/a''))
     = Inr \<lparr>mode = ''none'', body_raw = []\<rparr>
   \<and> map_sum id (body \<circ> request)
       (parseCurlCommand_main_go id
          (''curl --request POST '' @ quoted ''http://example.com/a'' @ '' --data-raw ''
           @ quoted (''{'' @ ([dquote] @ ''a'' @ [dquote] @ '':1'') @ ''}'')))
     = Inr \<lparr>mode = ''raw'', body_raw = ''{'' @ ([dquote] @ ''a'' @ [dquote] @ '':1'') @ ''}''\<rparr>
   \<and> map_option (body \<circ> request) (parseCurlCommand_part_000 ''--request GET --url example.com/a'')
     = Some \<lparr>mode = ''raw'', body_raw = []\<rparr>
   \<and> map_option (body \<circ> request)
       (parseCurlCommand_part_000
          (''--request POST --url example.com/a --data ''
           @ quoted (''{'' @ ([dquote] @ ''a'' @ [dquote] @ '':1'') @ ''}'')))
     = Some \<lparr>mode = ''raw'', body_raw = ''{'' @ ([dquote] @ ''a'' @ [dquote] @ '':1'') @ ''}''\<rparr>
   \<and> map_option (body \<circ> request)
       (parseCurlCommand_part_000
          (''--request POST --url example.com/a --data-raw ''
           @ quoted (''{'' @ ([dquote] @ ''a'' @ [dquote] @ '':1'') @ ''}'') @ '' -v''))
     = Some \<lparr>mode = ''raw'', body_raw = ''{'' @ ([dquote] @ ''a'' @ [dquote] @ '':1'') @ ''}''\<rparr>"
proof -
  let ?x = "[dquote] @ ''a'' @ [dquote] @ '':1''"
  let ?cA = "''--request GET '' @ quoted ''http://example.com/a''"
  let ?preB = "''curl --request POST '' @ quoted ''http://example.com/a'' @ '' ''"
  let ?cB = "''curl --request POST '' @ quoted ''http://example.com/a'' @ '' --data-raw ''
           @ quoted (''{'' @ ?x @ ''}'')"
  let ?cC = "''--request GET --url example.com/a''"
  let ?preD = "''--request POST --url example.com/a ''"
  let ?cD = "''--request POST --url example.com/a --data '' @ quoted (''{'' @ ?x @ ''}'')"
  let ?cE = "''--request POST --url example.com/a --data-raw '' @ quoted (''{'' @ ?x @ ''}'')
             @ '' -v''"
  have x: "squote \<notin> set ?x" by code_simp
  \<comment> \<open>src/main.go, no pattern\<close>
  have "list_all (\<lambda>i. \<not> matches_at reDataRaw (normalize ?cA) i) [0..<Suc (length (normalize ?cA))]"
    by code_simp
  then have nA: "\<forall>i\<le>length (normalize ?cA). \<not> matches_at reDataRaw (normalize ?cA) i"
    by (rule list_all_upto)
  have "\<not> isl (parseCurlCommand_main_go id ?cA)" by code_simp
  then obtain a where a: "parseCurlCommand_main_go id ?cA = Inr a"
    by (cases "parseCurlCommand_main_go id ?cA") auto
  from body_of_each_file [where order = id and c = ?cA] a nA
  have A: "body (request a) = \<lparr>mode = ''none'', body_raw = []\<rparr>" by blast
  \<comment> \<open>src/main.go, \<^verbatim>\<open>--data-raw\<close>\<close>
  have eB: "normalize ?cB = ?preB @ ''--data-raw '' @ quoted (''{'' @ ?x @ ''}'') @ []" by code_simp
  have "list_all (\<lambda>i. \<not> matches_at reDataRaw (normalize ?cB) i) [0..<length ?preB]" by code_simp
  then have lB: "\<forall>i<length ?preB. \<not> matches_at reDataRaw (normalize ?cB) i"
    by (rule list_all_below)
  have "\<not> isl (parseCurlCommand_main_go id ?cB)" by code_simp
  then obtain b where b: "parseCurlCommand_main_go id ?cB = Inr b"
    by (cases "parseCurlCommand_main_go id ?cB") auto
  from body_of_each_file [where order = id and c = ?cB and pre = ?preB and x = ?x and post = "[]"]
    b eB x lB
  have B: "body (request b) = \<lparr>mode = ''raw'', body_raw = ''{'' @ ?x @ ''}''\<rparr>" by blast
  \<comment> \<open>src/unnamed/part_000, no pattern\<close>
  have "list_all (\<lambda>i. \<not> matches_at reData (normalize ?cC) i) [0..<Suc (length (normalize ?cC))]"
    by code_simp
  then have nC: "\<forall>i\<le>length (normalize ?cC). \<not> matches_at reData (normalize ?cC) i"
    by (rule list_all_upto)
  have "list_all (\<lambda>i. \<not> matches_at reDataRaw (normalize ?cC) i) [0..<Suc (length (normalize ?cC))]"
    by code_simp
  then have nC': "\<forall>i\<le>length (normalize ?cC). \<not> matches_at reDataRaw (normalize ?cC) i"
    by (rule list_all_upto)
  have "parseCurlCommand_part_000 ?cC \<noteq> None" by code_simp
  then obtain c' where c': "parseCurlCommand_part_000 ?cC = Some c'" by auto
  from body_of_each_file [where c = ?cC] c' nC nC'
  have "mode (body (request c')) = ''raw''" "body_raw (body (request c')) = []" by blast+
  then have C: "body (request c') = \<lparr>mode = ''raw'', body_raw = []\<rparr>" by simp
  \<comment> \<open>src/unnamed/part_000, \<^verbatim>\<open>--data\<close>\<close>
  have eD: "normalize ?cD = ?preD @ ''--data '' @ quoted (''{'' @ ?x @ ''}'') @ []" by code_simp
  have "list_all (\<lambda>i. \<not> matches_at reData (normalize ?cD) i) [0..<length ?preD]" by code_simp
  then have lD: "\<forall>i<length ?preD. \<not> matches_at reData (normalize ?cD) i"
    by (rule list_all_below)
  have "parseCurlCommand_part_000 ?cD \<noteq> None" by code_simp
  then obtain d where d: "parseCurlCommand_part_000 ?cD = Some d" by auto
  from body_of_each_file [where c = ?cD and pre = ?preD and x = ?x and post = "[]"] d eD x lD
  have "mode (body (request d)) = ''raw''" "body_raw (body (request d)) = ''{'' @ ?x @ ''}''"
    by blast+
  then have D: "body (request d) = \<lparr>mode = ''raw'', body_raw = ''{'' @ ?x @ ''}''\<rparr>" by simp
  \<comment> \<open>src/unnamed/part_000, \<^verbatim>\<open>--data-raw\<close>\<close>
  have eE: "normalize ?cE = ?preD @ ''--data-raw '' @ quoted (''{'' @ ?x @ ''}'') @ '' -v''"
    by code_simp
  have "list_all (\<lambda>i. \<not> matches_at reData (normalize ?cE) i) [0..<Suc (length (normalize ?cE))]"
    by code_simp
  then have nE: "\<forall>i\<le>length (normalize ?cE). \<not> matches_at reData (normalize ?cE) i"
    by (rule list_all_upto)
  have "list_all (\<lambda>i. \<not> matches_at reDataRaw (normalize ?cE) i) [0..<length ?preD]" by code_simp
  then have lE: "\<forall>i<length ?preD. \<not> matches_at reDataRaw (normalize ?cE) i"
    by (rule list_all_below)
  have "parseCurlCommand_part_000 ?cE \<noteq> None" by code_simp
  then obtain e where e: "parseCurlCommand_part_000 ?cE = Some e" by auto
  from body_of_each_file [where c = ?cE and pre = ?preD and x = ?x and post = "'' -v''"]
    e eE x nE lE
  have "mode (body (request e)) = ''raw''" "body_raw (body (request e)) = ''{'' @ ?x @ ''}''"
    by blast+
  then have E: "body (request e) = \<lparr>mode = ''raw'', body_raw = ''{'' @ ?x @ ''}''\<rparr>" by simp
  from a b c' d e A B C D E show ?thesis by simp
qed

text \<open>
  Without any data flag \<^verbatim>\<open>src/unnamed/part_000\<close> gives the mode \<^verbatim>\<open>raw\<close>, not
  \<^verbatim>\<open>none\<close>; with \<^verbatim>\<open>--data '{"a":1}'\<close> \<^verbatim>\<open>src/main.go\<close> gives the mode \<^verbatim>\<open>none\<close> and an
  empty raw content.
\<close>

theorem body_of_each_file_counterexample:
  "map_option (body \<circ> request) (parseCurlCommand_part_000 ''--request GET --url example.com/a'')
     = Some \<lparr>mode = ''raw'', body_raw = []\<rparr>
   \<and> map_sum id (body \<circ> request)
       (parseCurlCommand_main_go id
          (''--request POST '' @ quoted ''http://example.com/a'' @ '' --data ''
           @ quoted (''{'' @ [dquote] @ ''a'' @ [dquote] @ '':1}'')))
     = Inr \<lparr>mode = ''none'', body_raw = []\<rparr>"
  by code_simp

text \<open>
  C5, as amended.  In both files \<^verbatim>\<open>url.path\<close> of a resulting record is a list of one
  element: the path of the resolved URL without its leading \<^verbatim>\<open>/\<close> characters, not split
  into segments.  For a path of a single segment, such as \<^verbatim>\<open>/users\<close>, that is the
  list of segments of the specification.
\<close>

theorem path_is_one_entry:
  "(\<forall>r. parseCurlCommand_main_go order c = Inr r \<longrightarrow>
         (\<exists>u. url_Parse (withDefaultScheme
                  (snd (extractMethodAndUrl reMethodAndUrl_main_go (normalize c)))) = Some u
              \<and> path (url (request r)) = [dropWhile (\<lambda>x. x = CHR ''/'') (Path u)]))
   \<and> (\<forall>r. parseCurlCommand_part_000 c = Some r \<longrightarrow>
         (\<exists>u. url_Parse (withDefaultScheme
                  (snd (extractMethodAndUrl reMethodAndUrl_part_000 (normalize c)))) = Some u
              \<and> path (url (request r)) = [dropWhile (\<lambda>x. x = CHR ''/'') (Path u)]))
   \<and> (seg \<noteq> [] \<and> CHR ''/'' \<notin> set seg \<longrightarrow>
         [strings_TrimLeft (CHR ''/'' # seg) ''/''] = path_segments_spec (CHR ''/'' # seg))"
proof (intro conjI allI impI)
  fix r assume "parseCurlCommand_main_go order c = Inr r"
  from main_go_record [OF this]
  show "\<exists>u. url_Parse (withDefaultScheme
                  (snd (extractMethodAndUrl reMethodAndUrl_main_go (normalize c)))) = Some u
              \<and> path (url (request r)) = [dropWhile (\<lambda>x. x = CHR ''/'') (Path u)]"
    by (auto simp: strings_TrimLeft_def)
next
  fix r assume "parseCurlCommand_part_000 c = Some r"
  from part_000_record [OF this]
  show "\<exists>u. url_Parse (withDefaultScheme
                  (snd (extractMethodAndUrl reMethodAndUrl_part_000 (normalize c)))) = Some u
              \<and> path (url (request r)) = [dropWhile (\<lambda>x. x = CHR ''/'') (Path u)]"
    by (auto simp: strings_TrimLeft_def)
next
  assume "seg \<noteq> [] \<and> CHR ''/'' \<notin> set seg"
  then show "[strings_TrimLeft (CHR ''/'' # seg) ''/''] = path_segments_spec (CHR ''/'' # seg)"
    by (intro path_segments_single) blast+
qed

theorem path_is_one_entry_witness:
  "map_option (path \<circ> url \<circ> request)
     (parseCurlCommand_part_000 ''--request GET --url api.example.com/users'') = Some [''users'']
   \<and> map_sum id (path \<circ> url \<circ> request)
         (parseCurlCommand_main_go id (''--request POST '' @ quoted ''http://h.example.com//a/b/''))
       = Inr [''a/b/'']
   \<and> ''users'' \<noteq> [] \<and> CHR ''/'' \<notin> set ''users''
   \<and> path_segments_spec ''/users'' = [''users'']"
proof -
  let ?c1 = "''--request POST '' @ quoted ''http://h.example.com//a/b/''"
  let ?c2 = "''--request GET --url api.example.com/users''"
  let ?u1 = "withDefaultScheme (snd (extractMethodAndUrl reMethodAndUrl_main_go (normalize ?c1)))"
  let ?u2 = "withDefaultScheme (snd (extractMethodAndUrl reMethodAndUrl_part_000 (normalize ?c2)))"
  have r1: "\<not> isl (parseCurlCommand_main_go id ?c1)" by code_simp
  have r2: "parseCurlCommand_part_000 ?c2 \<noteq> None" by code_simp
  have p1: "map_option Path (url_Parse ?u1) = Some ''//a/b/''" by code_simp
  have p2: "map_option Path (url_Parse ?u2) = Some ''/users''" by code_simp
  have s: "''users'' \<noteq> [] \<and> CHR ''/'' \<notin> set ''users''" by simp
  from r1 obtain a where a: "parseCurlCommand_main_go id ?c1 = Inr a"
    by (cases "parseCurlCommand_main_go id ?c1") auto
  from r2 obtain b where b: "parseCurlCommand_part_000 ?c2 = Some b" by auto
  from path_is_one_entry [of id ?c1 "''users''"] a p1
  have "path (url (request a)) = [''a/b/'']" by auto
  moreover from path_is_one_entry [of id ?c2 "''users''"] b p2
  have "path (url (request b)) = [''users'']" by auto
  moreover from path_is_one_entry [of id ?c2 "''users''"] s
  have "path_segments_spec ''/users'' = [''users'']" by (simp add: strings_TrimLeft_def)
  ultimately show ?thesis using a b by simp
qed

text \<open>
  The path \<^verbatim>\<open>/a/b\<close> has the two segments \<^verbatim>\<open>a\<close> and \<^verbatim>\<open>b\<close>; both files give the one
  entry \<^verbatim>\<open>a/b\<close>.
\<close>

theorem path_is_one_entry_counterexample:
  "map_option Path (url_Parse (withDefaultScheme ''example.com/a/b'')) = Some ''/a/b''
   \<and> path_segments_spec ''/a/b'' = [''a'', ''b'']
   \<and> map_option (path \<circ> url \<circ> request)
         (parseCurlCommand_part_000 ''--request GET --url example.com/a/b'') = Some [''a/b'']
   \<and> map_sum id (path \<circ> url \<circ> request)
         (parseCurlCommand_main_go id (''--request GET '' @ quoted ''example.com/a/b''))
       = Inr [''a/b'']"
  by code_simp

text \<open>
  C6.  The claim: two runs on the same input give the same record, query entries
  included.  In \<^verbatim>\<open>src/main.go\<close> the query entries are appended in the order in which
  \<^verbatim>\<open>range\<close> visits the map \<^verbatim>\<open>parsedUrl.Query()\<close>; for a URL with the two keys \<open>a\<close>
  and \<open>b\<close>, two orders of visit give two different records.
\<close>

theorem query_order_follows_map_iteration:
  "map_option Query (url_Parse ''http://example.com/s?a=1&b=2'')
     = Some [(''a'', [''1'']), (''b'', [''2''])]
   \<and> map_sum id (query \<circ> url \<circ> request)
         (parseCurlCommand_main_go id
            (''--request GET '' @ quoted ''http://example.com/s?a=1&b=2''))
       = Inr [\<lparr>query_key = ''a'', query_value = ''1'', disabled = False\<rparr>,
              \<lparr>query_key = ''b'', query_value = ''2'', disabled = False\<rparr>]
   \<and> map_sum id (query \<circ> url \<circ> request)
         (parseCurlCommand_main_go rev
            (''--request GET '' @ quoted ''http://example.com/s?a=1&b=2''))
       = Inr [\<lparr>query_key = ''b'', query_value = ''2'', disabled = False\<rparr>,
              \<lparr>query_key = ''a'', query_value = ''1'', disabled = False\<rparr>]
   \<and> parseCurlCommand_main_go id (''--request GET '' @ quoted ''http://example.com/s?a=1&b=2'')
       \<noteq> parseCurlCommand_main_go rev
           (''--request GET '' @ quoted ''http://example.com/s?a=1&b=2'')"
  by code_simp

text \<open>
  C7.  The token \<^verbatim>\<open>example.com/r?to=http://x\<close> has no \<^verbatim>\<open>scheme://\<close> prefix, so the
  resolver should prepend \<^verbatim>\<open>http://\<close> and the record should have the scheme
  \<^verbatim>\<open>http\<close>, as both files say in their comments (``Assume HTTP if no scheme is given'',
  ``Default to http if no scheme is specified'').  The code tests whether the token
  contains \<^verbatim>\<open>://\<close> anywhere (\<^verbatim>\<open>strings.Contains\<close>), finds it in the query and
  prepends nothing: \<^verbatim>\<open>src/main.go\<close> builds a record with an empty scheme and an empty
  host, and \<^verbatim>\<open>src/unnamed/part_000\<close> finds no host name and returns \<^verbatim>\<open>nil\<close>, which
  \<^verbatim>\<open>main\<close> appends to the items.  The same host and path without the query resolve
  with the scheme \<^verbatim>\<open>http\<close>.
\<close>

theorem inner_separator_suppresses_default_scheme:
  "\<not> has_scheme_prefix ''example.com/r?to=http://x''
   \<and> withDefaultScheme ''example.com/r?to=http://x'' = ''example.com/r?to=http://x''
   \<and> map_option Scheme (url_Parse (withDefaultScheme ''example.com/r?to=http://x'')) = Some []
   \<and> map_sum id (protocol \<circ> url \<circ> request)
         (parseCurlCommand_main_go id (''--request GET '' @ quoted ''example.com/r?to=http://x''))
       = Inr []
   \<and> map_sum id (host \<circ> url \<circ> request)
         (parseCurlCommand_main_go id (''--request GET '' @ quoted ''example.com/r?to=http://x''))
       = Inr [[]]
   \<and> Option.is_none (parseCurlCommand_part_000 ''--request GET --url example.com/r?to=http://x'')
   \<and> map Option.is_none
         (collect_part_000 [] [Some ''--request GET --url example.com/r?to=http://x''])
       = [True]
   \<and> \<not> has_scheme_prefix ''example.com/r''
   \<and> map_option (protocol \<circ> url \<circ> request)
         (parseCurlCommand_part_000 ''--request GET --url example.com/r'') = Some ''http''"
  by code_simp

text \<open>
  C8.  The command \<^verbatim>\<open>... --header 'Accept' --header 'Host: x.y'\<close> has one occurrence
  of the shape \<^verbatim>\<open>--header '<key>: <value>'\<close>, with the key \<^verbatim>\<open>Host\<close> and the value
  \<^verbatim>\<open>x.y\<close>, and the header list of the specification (\<open>headers_spec\<close>) is that one
  entry.  Both files return one entry whose key is \<^verbatim>\<open>Accept' --header 'Host\<close>: the key
  class \<^verbatim>\<open>[^:]+\<close> of the code's pattern also matches a quote, so the match that starts
  at the first flag runs on past its closing quote to the colon of the second, and the
  well-formed occurrence, where the pattern would match as well (offset 18 of the header
  part), is consumed by it.  On \<^verbatim>\<open>--header 'A: b' --header 'C: d'\<close>, where each quoted text
  has its colon and space, the code's list is that of the specification.
\<close>

theorem well_formed_header_is_lost:
  "map_option (header \<circ> request)
     (parseCurlCommand_part_000
        (''--request GET --url example.com --header '' @ quoted ''Accept''
         @ '' --header '' @ quoted ''Host: x.y''))
     = Some [\<lparr>header_key = ''Accept'' @ [squote] @ '' --header '' @ [squote] @ ''Host'',
               header_value = ''x.y''\<rparr>]
   \<and> headers_spec
       (normalize (''--request GET --url example.com --header '' @ quoted ''Accept''
                   @ '' --header '' @ quoted ''Host: x.y''))
     = [\<lparr>header_key = ''Host'', header_value = ''x.y''\<rparr>]
   \<and> map_sum id (header \<circ> request)
       (parseCurlCommand_main_go id
          (''--request GET '' @ quoted ''http://example.com'' @ '' --header '' @ quoted ''Accept''
           @ '' --header '' @ quoted ''Host: x.y''))
     = Inr [\<lparr>header_key = ''Accept'' @ [squote] @ '' --header '' @ [squote] @ ''Host'',
              header_value = ''x.y''\<rparr>]
   \<and> headers_spec
       (normalize (''--request GET '' @ quoted ''http://example.com'' @ '' --header ''
                   @ quoted ''Accept'' @ '' --header '' @ quoted ''Host: x.y''))
     = [\<lparr>header_key = ''Host'', header_value = ''x.y''\<rparr>]
   \<and> map fst (FindAllStringSubmatchIndex reHeader
                  (''--header '' @ quoted ''Accept'' @ '' --header '' @ quoted ''Host: x.y''))
     = [0]
   \<and> matches_at reHeader
        (''--header '' @ quoted ''Accept'' @ '' --header '' @ quoted ''Host: x.y'') 18
   \<and> headers_spec (''--header '' @ quoted ''A: b'' @ '' --header '' @ quoted ''C: d'')
     = extractHeaders (''--header '' @ quoted ''A: b'' @ '' --header '' @ quoted ''C: d'')"
  by code_simp

text \<open>
  C9.  The text normalizer replaces every backslash that is immediately followed by a
  newline by a single space, then every remaining newline by a single space, and changes
  no other character; it is a total function.  \<open>normalize\<close> is the code (two calls of
  \<^verbatim>\<open>strings.Replace\<close>); \<open>normalize_spec\<close> does the two replacements byte by byte, and
  \<open>normalize_one_pass\<close> does both in one scan from the left.  The result has no
  newline and is never longer than the input.
\<close>

theorem normalize_refines_spec:
  "normalize s = normalize_spec s
   \<and> normalize s = normalize_one_pass s
   \<and> newline \<notin> set (normalize s)
   \<and> length (normalize s) \<le> length s"
proof -
  have a: "normalize s = normalize_spec s"
    by (simp add: normalize_def normalize_spec_def Replace_continuations Replace_newlines)
  have b: "newline \<notin> set (map newline_to_space t)" for t
    by (induction t) (auto simp: newline_to_space_def newline_def)
  have c: "length (join_continuations t) \<le> length t" for t
    by (induction t rule: join_continuations.induct) auto
  show ?thesis using a b c by (simp add: normalize_spec_def one_pass_eq)
qed

theorem normalize_refines_spec_witness:
  "normalize (''curl --request GET '' @ [backslash, newline] @ '' --url a.b/c'' @ [newline]
              @ [backslash] @ ''n'')
   = ''curl --request GET   --url a.b/c '' @ [backslash] @ ''n''"
proof -
  let ?x = "''curl --request GET '' @ [backslash, newline] @ '' --url a.b/c'' @ [newline]
              @ [backslash] @ ''n''"
  have "normalize_one_pass ?x = ''curl --request GET   --url a.b/c '' @ [backslash] @ ''n''"
    by code_simp
  moreover from normalize_refines_spec [of ?x] have "normalize ?x = normalize_one_pass ?x"
    by blast
  ultimately show ?thesis by (simp only:)
qed




end
